theory Spec2Isabelle
  imports Main "HOL-Library.Word"
begin

unbundle bit_operations_syntax

section \<open>Haptic command pipeline: DRV2605L driver and haptic service\<close>

text \<open>
  A shallow embedding of \<^verbatim>\<open>drivers/haptics/drv2605l.c\<close> (the register-level
  driver) and \<^verbatim>\<open>services/haptics/haptic_service.c\<close> (the BLE command decoder and
  the producer side of the haptic FIFO). C functions returning \<^verbatim>\<open>int\<close> (0 or a
  negative errno) return a sum here: \<open>Inr ()\<close> for 0 and \<open>Inl e\<close> for \<open>-e\<close>.
  The static variables of each file are the fields of a state record that every
  function takes and returns.
\<close>

subsection \<open>Basic types\<close>

type_synonym u8 = "8 word"

text \<open>
  The errno values the two files return by name, \<open>EOTHER\<close> for any other code the
  I2C layer may hand back, and \<open>OutOfBounds\<close>, which is not a return code: it marks a
  read past the end of the caller's array (undefined behaviour in C).
\<close>

datatype error = EINVAL | ENOMEM | ENOTSUP | ENODEV | ETIMEDOUT | EIO | EOTHER nat | OutOfBounds

type_synonym 'a result = "error + 'a"

subsection \<open>Constants of drv2605l.h\<close>

abbreviation (input) DRV2605L_REG_STATUS :: u8 where "DRV2605L_REG_STATUS \<equiv> 0x00"
abbreviation (input) DRV2605L_REG_MODE :: u8 where "DRV2605L_REG_MODE \<equiv> 0x01"
abbreviation (input) DRV2605L_REG_LIBRARY :: u8 where "DRV2605L_REG_LIBRARY \<equiv> 0x03"
abbreviation (input) DRV2605L_REG_WAVESEQ1 :: u8 where "DRV2605L_REG_WAVESEQ1 \<equiv> 0x04"
abbreviation (input) DRV2605L_REG_WAVESEQ2 :: u8 where "DRV2605L_REG_WAVESEQ2 \<equiv> 0x05"
abbreviation (input) DRV2605L_REG_WAVESEQ3 :: u8 where "DRV2605L_REG_WAVESEQ3 \<equiv> 0x06"
abbreviation (input) DRV2605L_REG_WAVESEQ4 :: u8 where "DRV2605L_REG_WAVESEQ4 \<equiv> 0x07"
abbreviation (input) DRV2605L_REG_WAVESEQ5 :: u8 where "DRV2605L_REG_WAVESEQ5 \<equiv> 0x08"
abbreviation (input) DRV2605L_REG_WAVESEQ6 :: u8 where "DRV2605L_REG_WAVESEQ6 \<equiv> 0x09"
abbreviation (input) DRV2605L_REG_WAVESEQ7 :: u8 where "DRV2605L_REG_WAVESEQ7 \<equiv> 0x0A"
abbreviation (input) DRV2605L_REG_WAVESEQ8 :: u8 where "DRV2605L_REG_WAVESEQ8 \<equiv> 0x0B"
abbreviation (input) DRV2605L_REG_GO :: u8 where "DRV2605L_REG_GO \<equiv> 0x0C"
abbreviation (input) DRV2605L_REG_RATEDV :: u8 where "DRV2605L_REG_RATEDV \<equiv> 0x16"
abbreviation (input) DRV2605L_REG_CLAMPV :: u8 where "DRV2605L_REG_CLAMPV \<equiv> 0x17"
abbreviation (input) DRV2605L_REG_FEEDBACK :: u8 where "DRV2605L_REG_FEEDBACK \<equiv> 0x1A"
abbreviation (input) DRV2605L_REG_CONTROL1 :: u8 where "DRV2605L_REG_CONTROL1 \<equiv> 0x1B"
abbreviation (input) DRV2605L_REG_CONTROL2 :: u8 where "DRV2605L_REG_CONTROL2 \<equiv> 0x1C"
abbreviation (input) DRV2605L_REG_CONTROL3 :: u8 where "DRV2605L_REG_CONTROL3 \<equiv> 0x1D"

abbreviation (input) DRV2605L_MODE_INTTRIG :: u8 where "DRV2605L_MODE_INTTRIG \<equiv> 0x00"
abbreviation (input) DRV2605L_MODE_AUTOCAL :: u8 where "DRV2605L_MODE_AUTOCAL \<equiv> 0x07"
abbreviation (input) DRV2605L_MODE_STANDBY :: u8 where "DRV2605L_MODE_STANDBY \<equiv> 0x40"

abbreviation (input) DRV2605L_LIB_ERM :: u8 where "DRV2605L_LIB_ERM \<equiv> 0x01"
abbreviation (input) DRV2605L_LIB_LRA :: u8 where "DRV2605L_LIB_LRA \<equiv> 0x06"

abbreviation (input) DRV2605L_EFFECT_STRONG_CLICK_100 :: u8 where
  "DRV2605L_EFFECT_STRONG_CLICK_100 \<equiv> 1"
abbreviation (input) DRV2605L_EFFECT_SHARP_CLICK_100 :: u8 where
  "DRV2605L_EFFECT_SHARP_CLICK_100 \<equiv> 4"
abbreviation (input) DRV2605L_EFFECT_SHARP_CLICK_60 :: u8 where
  "DRV2605L_EFFECT_SHARP_CLICK_60 \<equiv> 5"
abbreviation (input) DRV2605L_EFFECT_SOFT_BUMP_100 :: u8 where
  "DRV2605L_EFFECT_SOFT_BUMP_100 \<equiv> 7"
abbreviation (input) DRV2605L_EFFECT_SOFT_BUMP_60 :: u8 where
  "DRV2605L_EFFECT_SOFT_BUMP_60 \<equiv> 8"
abbreviation (input) DRV2605L_EFFECT_DOUBLE_CLICK_100 :: u8 where
  "DRV2605L_EFFECT_DOUBLE_CLICK_100 \<equiv> 10"
abbreviation (input) DRV2605L_EFFECT_STRONG_BUZZ_100 :: u8 where
  "DRV2605L_EFFECT_STRONG_BUZZ_100 \<equiv> 14"
abbreviation (input) DRV2605L_EFFECT_PULSING_STRONG_1 :: u8 where
  "DRV2605L_EFFECT_PULSING_STRONG_1 \<equiv> 52"
abbreviation (input) DRV2605L_EFFECT_TRANSITION_RAMP_DOWN_LONG_SMOOTH_1 :: u8 where
  "DRV2605L_EFFECT_TRANSITION_RAMP_DOWN_LONG_SMOOTH_1 \<equiv> 71"
abbreviation (input) DRV2605L_EFFECT_TRANSITION_RAMP_UP_LONG_SMOOTH_1 :: u8 where
  "DRV2605L_EFFECT_TRANSITION_RAMP_UP_LONG_SMOOTH_1 \<equiv> 83"
abbreviation (input) DRV2605L_EFFECT_TRANSITION_RAMP_UP_SHORT_SMOOTH_1 :: u8 where
  "DRV2605L_EFFECT_TRANSITION_RAMP_UP_SHORT_SMOOTH_1 \<equiv> 87"

abbreviation (input) DRV2605L_MAX_WAVEFORM_SEQ :: nat where "DRV2605L_MAX_WAVEFORM_SEQ \<equiv> 8"

datatype drv2605l_motor_type_t = DRV2605L_MOTOR_ERM | DRV2605L_MOTOR_LRA

subsection \<open>Driver state and the I2C bus\<close>

text \<open>
  Every transaction the driver issues on the bus is appended to \<open>trace\<close>, whether the
  device acknowledges it or not. The device and the I2C layer are the environment:
  \<open>bus s n\<close> is what transaction number \<open>n\<close> (counted from 0) returns, an error code
  or none, and for a read the byte read. \<open>bus_ready\<close> is \<^verbatim>\<open>device_is_ready\<close>.
\<close>

datatype bus_event = WriteReg u8 u8 | ReadReg u8

record drv_state =
  initialized :: bool
  motor_type :: drv2605l_motor_type_t
  bus_ready :: bool
  bus :: "nat \<Rightarrow> error option \<times> u8"
  trace :: "bus_event list"

definition drv2605l_write_reg :: "u8 \<Rightarrow> u8 \<Rightarrow> drv_state \<Rightarrow> unit result \<times> drv_state" where
  "drv2605l_write_reg reg val s =
     (case fst (bus s (length (trace s))) of
        Some e \<Rightarrow> Inl e
      | None \<Rightarrow> Inr (),
      s\<lparr>trace := trace s @ [WriteReg reg val]\<rparr>)"

definition drv2605l_read_reg :: "u8 \<Rightarrow> drv_state \<Rightarrow> u8 result \<times> drv_state" where
  "drv2605l_read_reg reg s =
     (case fst (bus s (length (trace s))) of
        Some e \<Rightarrow> Inl e
      | None \<Rightarrow> Inr (snd (bus s (length (trace s)))),
      s\<lparr>trace := trace s @ [ReadReg reg]\<rparr>)"

text \<open>
  The idiom \<^verbatim>\<open>ret = f(...); if (ret < 0) { return ret; }\<close> followed by the rest
  of the function body.
\<close>

definition then_do ::
  "(drv_state \<Rightarrow> unit result \<times> drv_state) \<Rightarrow> (drv_state \<Rightarrow> 'a result \<times> drv_state)
     \<Rightarrow> drv_state \<Rightarrow> 'a result \<times> drv_state" where
  "then_do f g s = (case f s of (Inl e, s') \<Rightarrow> (Inl e, s') | (Inr _, s') \<Rightarrow> g s')"

definition return_ok :: "drv_state \<Rightarrow> unit result \<times> drv_state" where
  "return_ok s = (Inr (), s)"

subsection \<open>drv2605l.c\<close>

definition drv2605l_init :: "drv2605l_motor_type_t \<Rightarrow> drv_state \<Rightarrow> unit result \<times> drv_state" where
  "drv2605l_init type s =
     (if \<not> bus_ready s then (Inl ENODEV, s)
      else
        (case drv2605l_read_reg DRV2605L_REG_STATUS (s\<lparr>motor_type := type\<rparr>) of
           (Inl e, s') \<Rightarrow> (Inl e, s')
         | (Inr status, s') \<Rightarrow>
            (then_do (drv2605l_write_reg DRV2605L_REG_MODE DRV2605L_MODE_INTTRIG)
            (then_do (drv2605l_write_reg DRV2605L_REG_LIBRARY
                        (if type = DRV2605L_MOTOR_LRA then DRV2605L_LIB_LRA else DRV2605L_LIB_ERM))
            (then_do (drv2605l_write_reg DRV2605L_REG_FEEDBACK
                        (if type = DRV2605L_MOTOR_LRA then 0x80 else 0x00))
            (then_do (if type = DRV2605L_MOTOR_ERM
                      then then_do (drv2605l_write_reg DRV2605L_REG_RATEDV 0x90)
                                   (drv2605l_write_reg DRV2605L_REG_CLAMPV 0xFF)
                      else return_ok)
            (then_do (drv2605l_write_reg DRV2605L_REG_CONTROL1 0x93)
            (then_do (drv2605l_write_reg DRV2605L_REG_CONTROL2 0xF5)
            (then_do (drv2605l_write_reg DRV2605L_REG_CONTROL3 0xA0)
            (\<lambda>t. (Inr (), t\<lparr>initialized := True\<rparr>))))))))) s'))"

definition drv2605l_play_effect :: "u8 \<Rightarrow> drv_state \<Rightarrow> unit result \<times> drv_state" where
  "drv2605l_play_effect effect s =
     (if \<not> initialized s then (Inl ENODEV, s)
      else if effect < 1 \<or> effect > 123 then (Inl EINVAL, s)
      else
        (then_do (drv2605l_write_reg DRV2605L_REG_WAVESEQ1 effect)
        (then_do (drv2605l_write_reg DRV2605L_REG_WAVESEQ2 0x00)
                 (drv2605l_write_reg DRV2605L_REG_GO 0x01))) s)"

text \<open>
  The loop \<^verbatim>\<open>for (uint8_t i = 0; i < count; i++)\<close> of
  \<^verbatim>\<open>drv2605l_play_sequence\<close>, entered with \<open>count \<le> 8\<close>: each element is checked
  and then written to slot \<open>i\<close> before the next element is looked at.
\<close>

function program_waveseq :: "u8 list \<Rightarrow> nat \<Rightarrow> nat \<Rightarrow> drv_state \<Rightarrow> unit result \<times> drv_state" where
  "program_waveseq effects i count s =
     (if i < count then
        (if length effects \<le> i then (Inl OutOfBounds, s)
         else if effects ! i < 1 \<or> effects ! i > 123 then (Inl EINVAL, s)
         else
           (case drv2605l_write_reg (DRV2605L_REG_WAVESEQ1 + of_nat i) (effects ! i) s of
              (Inl e, s') \<Rightarrow> (Inl e, s')
            | (Inr _, s') \<Rightarrow> program_waveseq effects (Suc i) count s'))
      else (Inr (), s))"
  by pat_completeness auto
termination
  by (relation "measure (\<lambda>(effects, i, count, s). count - i)") auto

declare program_waveseq.simps [simp del]

definition drv2605l_play_sequence ::
  "u8 list option \<Rightarrow> u8 \<Rightarrow> drv_state \<Rightarrow> unit result \<times> drv_state" where
  "drv2605l_play_sequence effects count s =
     (if \<not> initialized s then (Inl ENODEV, s)
      else
        (case effects of
           None \<Rightarrow> (Inl EINVAL, s)
         | Some es \<Rightarrow>
             if count = 0 then (Inl EINVAL, s)
             else
               (let n = (if unat count > DRV2605L_MAX_WAVEFORM_SEQ
                         then DRV2605L_MAX_WAVEFORM_SEQ else unat count)
                in (then_do (program_waveseq es 0 n)
                   (then_do (if n < DRV2605L_MAX_WAVEFORM_SEQ
                             then drv2605l_write_reg (DRV2605L_REG_WAVESEQ1 + of_nat n) 0x00
                             else return_ok)
                            (drv2605l_write_reg DRV2605L_REG_GO 0x01))) s)))"

definition drv2605l_stop :: "drv_state \<Rightarrow> unit result \<times> drv_state" where
  "drv2605l_stop s =
     (if \<not> initialized s then (Inl ENODEV, s)
      else drv2605l_write_reg DRV2605L_REG_GO 0x00 s)"

definition drv2605l_standby :: "drv_state \<Rightarrow> unit result \<times> drv_state" where
  "drv2605l_standby s =
     (if \<not> initialized s then (Inl ENODEV, s)
      else drv2605l_write_reg DRV2605L_REG_MODE DRV2605L_MODE_STANDBY s)"

definition drv2605l_wakeup :: "drv_state \<Rightarrow> unit result \<times> drv_state" where
  "drv2605l_wakeup s =
     (if \<not> initialized s then (Inl ENODEV, s)
      else drv2605l_write_reg DRV2605L_REG_MODE DRV2605L_MODE_INTTRIG s)"

text \<open>
  The polling loop of \<^verbatim>\<open>drv2605l_auto_calibrate\<close>,
  \<^verbatim>\<open>while (timeout-- > 0) { k_sleep; read GO; if ((status & 0x01) == 0) break; }\<close>.
  It returns the value \<^verbatim>\<open>timeout\<close> holds when the loop is left: the
  post-decrement has happened both when the body ran and when the test failed.
  The 10 ms sleep of each iteration has no effect on the state and is left out.
\<close>

function calibration_poll :: "int \<Rightarrow> drv_state \<Rightarrow> int result \<times> drv_state" where
  "calibration_poll timeout s =
     (if timeout > 0 then
        (case drv2605l_read_reg DRV2605L_REG_GO s of
           (Inl e, s') \<Rightarrow> (Inl e, s')
         | (Inr status, s') \<Rightarrow>
             if status AND 0x01 = 0 then (Inr (timeout - 1), s')
             else calibration_poll (timeout - 1) s')
      else (Inr (timeout - 1), s))"
  by pat_completeness auto
termination
  by (relation "measure (\<lambda>(timeout, s). nat timeout)") auto

declare calibration_poll.simps [simp del]

definition drv2605l_auto_calibrate :: "drv_state \<Rightarrow> unit result \<times> drv_state" where
  "drv2605l_auto_calibrate s =
     (if \<not> initialized s then (Inl ENODEV, s)
      else if motor_type s \<noteq> DRV2605L_MOTOR_LRA then (Inl ENOTSUP, s)
      else
        (then_do (drv2605l_write_reg DRV2605L_REG_MODE DRV2605L_MODE_AUTOCAL)
        (then_do (drv2605l_write_reg DRV2605L_REG_GO 0x01)
        (\<lambda>t. case calibration_poll 100 t of
               (Inl e, t') \<Rightarrow> (Inl e, t')
             | (Inr timeout, t') \<Rightarrow>
                 if timeout \<le> 0 then (Inl ETIMEDOUT, t')
                 else
                   (case drv2605l_read_reg DRV2605L_REG_STATUS t' of
                      (Inl e, t'') \<Rightarrow> (Inl e, t'')
                    | (Inr status, t'') \<Rightarrow>
                        if status AND 0x08 \<noteq> 0 then (Inl EIO, t'')
                        else drv2605l_write_reg DRV2605L_REG_MODE DRV2605L_MODE_INTTRIG t'')))) s)"

subsection \<open>haptic_service.h: requests and the FIFO\<close>

abbreviation (input) HAPTIC_MAX_DATA_SIZE :: nat where "HAPTIC_MAX_DATA_SIZE \<equiv> 32"

datatype haptic_pattern_type_t =
  HAPTIC_PATTERN_SINGLE_EFFECT | HAPTIC_PATTERN_SEQUENCE | HAPTIC_PATTERN_CUSTOM | HAPTIC_PATTERN_STOP

text \<open>
  \<^verbatim>\<open>struct haptic_data_t\<close>. \<open>h_data\<close> holds the bytes that \<^verbatim>\<open>memcpy\<close> wrote
  into the 32-byte array \<^verbatim>\<open>data\<close>; the rest of the freshly allocated array is
  indeterminate and is not represented.
\<close>

record haptic_data_t =
  h_type :: haptic_pattern_type_t
  h_data :: "u8 list"
  h_len :: u8

text \<open>
  The state of the service: the contents of \<^verbatim>\<open>fifo_haptic_data\<close>, oldest first,
  and the number of \<^verbatim>\<open>haptic_data_t\<close> blocks the kernel heap can still hand out
  (\<^verbatim>\<open>k_malloc\<close> returns NULL exactly when there is none).
\<close>

record svc_state =
  fifo :: "haptic_data_t list"
  heap_blocks :: nat

subsection \<open>haptic_service.c\<close>

abbreviation (input) HAPTIC_CMD_PLAY_EFFECT :: u8 where "HAPTIC_CMD_PLAY_EFFECT \<equiv> 0x01"
abbreviation (input) HAPTIC_CMD_PLAY_SEQUENCE :: u8 where "HAPTIC_CMD_PLAY_SEQUENCE \<equiv> 0x02"
abbreviation (input) HAPTIC_CMD_PLAY_PATTERN :: u8 where "HAPTIC_CMD_PLAY_PATTERN \<equiv> 0x03"
abbreviation (input) HAPTIC_CMD_STOP :: u8 where "HAPTIC_CMD_STOP \<equiv> 0x04"

definition pattern_notification :: "u8 list" where
  "pattern_notification = [DRV2605L_EFFECT_SHARP_CLICK_100]"

definition pattern_alert :: "u8 list" where
  "pattern_alert = [DRV2605L_EFFECT_STRONG_BUZZ_100, DRV2605L_EFFECT_STRONG_BUZZ_100]"

definition pattern_success :: "u8 list" where
  "pattern_success =
     [DRV2605L_EFFECT_TRANSITION_RAMP_UP_SHORT_SMOOTH_1, DRV2605L_EFFECT_STRONG_CLICK_100]"

definition pattern_error :: "u8 list" where
  "pattern_error =
     [DRV2605L_EFFECT_STRONG_CLICK_100, DRV2605L_EFFECT_STRONG_CLICK_100,
      DRV2605L_EFFECT_STRONG_CLICK_100]"

definition pattern_button_press :: "u8 list" where
  "pattern_button_press = [DRV2605L_EFFECT_SHARP_CLICK_60]"

definition pattern_long_press :: "u8 list" where
  "pattern_long_press = [DRV2605L_EFFECT_SOFT_BUMP_100, DRV2605L_EFFECT_STRONG_CLICK_100]"

definition pattern_double_tap :: "u8 list" where
  "pattern_double_tap = [DRV2605L_EFFECT_DOUBLE_CLICK_100]"

definition pattern_heartbeat :: "u8 list" where
  "pattern_heartbeat = [DRV2605L_EFFECT_SOFT_BUMP_100, DRV2605L_EFFECT_SOFT_BUMP_60]"

definition pattern_ramp_up :: "u8 list" where
  "pattern_ramp_up = [DRV2605L_EFFECT_TRANSITION_RAMP_UP_LONG_SMOOTH_1]"

definition pattern_ramp_down :: "u8 list" where
  "pattern_ramp_down = [DRV2605L_EFFECT_TRANSITION_RAMP_DOWN_LONG_SMOOTH_1]"

definition pattern_pulse :: "u8 list" where
  "pattern_pulse = [DRV2605L_EFFECT_PULSING_STRONG_1]"

definition pattern_buzz :: "u8 list" where
  "pattern_buzz = [DRV2605L_EFFECT_STRONG_BUZZ_100]"

text \<open>\<^verbatim>\<open>struct pattern_def\<close>: the array and its \<^verbatim>\<open>ARRAY_SIZE\<close>.\<close>

record pattern_def =
  pat_effects :: "u8 list"
  pat_count :: u8

definition mk_pattern :: "u8 list \<Rightarrow> pattern_def" where
  "mk_pattern xs = \<lparr>pat_effects = xs, pat_count = of_nat (length xs)\<rparr>"

text \<open>
  The table, in the order of the enumerators of \<^verbatim>\<open>haptic_predefined_pattern_t\<close>
  (NOTIFICATION = 0, ..., BUZZ = 11), which the designated initialisers index.
\<close>

definition predefined_patterns :: "pattern_def list" where
  "predefined_patterns =
     [mk_pattern pattern_notification, mk_pattern pattern_alert, mk_pattern pattern_success,
      mk_pattern pattern_error, mk_pattern pattern_button_press, mk_pattern pattern_long_press,
      mk_pattern pattern_double_tap, mk_pattern pattern_heartbeat, mk_pattern pattern_ramp_up,
      mk_pattern pattern_ramp_down, mk_pattern pattern_pulse, mk_pattern pattern_buzz]"

text \<open>
  \<^verbatim>\<open>queue_haptic_data\<close>. A pointer argument is \<open>None\<close> for NULL and otherwise the
  bytes readable from it. The function is static; each caller in the file passes at
  least \<open>len\<close> readable bytes, so \<open>take\<close> is the \<^verbatim>\<open>memcpy\<close>.
\<close>

definition queue_haptic_data ::
  "haptic_pattern_type_t \<Rightarrow> u8 list option \<Rightarrow> u8 \<Rightarrow> svc_state \<Rightarrow> unit result \<times> svc_state" where
  "queue_haptic_data type dat len s =
     (if unat len > HAPTIC_MAX_DATA_SIZE then (Inl EINVAL, s)
      else if heap_blocks s = 0 then (Inl ENOMEM, s)
      else
        (Inr (),
         s\<lparr>heap_blocks := heap_blocks s - 1,
           fifo := fifo s @
             [\<lparr>h_type = type,
               h_data = (case dat of
                           Some d \<Rightarrow> if len > 0 then take (unat len) d else []
                         | None \<Rightarrow> []),
               h_len = len\<rparr>]\<rparr>))"

definition haptic_play_effect :: "u8 \<Rightarrow> svc_state \<Rightarrow> unit result \<times> svc_state" where
  "haptic_play_effect effect s =
     (if effect < 1 \<or> effect > 123 then (Inl EINVAL, s)
      else queue_haptic_data HAPTIC_PATTERN_SINGLE_EFFECT (Some [effect]) 1 s)"

text \<open>
  The enum argument is its unsigned numeric value; the comparison with
  \<^verbatim>\<open>ARRAY_SIZE(predefined_patterns)\<close> is unsigned in C.
\<close>

definition haptic_play_pattern :: "nat \<Rightarrow> svc_state \<Rightarrow> unit result \<times> svc_state" where
  "haptic_play_pattern pattern s =
     (if pattern \<ge> length predefined_patterns then (Inl EINVAL, s)
      else
        (let pat = predefined_patterns ! pattern
         in queue_haptic_data HAPTIC_PATTERN_SEQUENCE (Some (pat_effects pat)) (pat_count pat) s))"

text \<open>The validation loop of \<^verbatim>\<open>haptic_play_sequence\<close>.\<close>

function validate_effects :: "u8 list \<Rightarrow> nat \<Rightarrow> nat \<Rightarrow> unit result" where
  "validate_effects effects i count =
     (if i < count then
        (if length effects \<le> i then Inl OutOfBounds
         else if effects ! i < 1 \<or> effects ! i > 123 then Inl EINVAL
         else validate_effects effects (Suc i) count)
      else Inr ())"
  by pat_completeness auto
termination
  by (relation "measure (\<lambda>(effects, i, count). count - i)") auto

declare validate_effects.simps [simp del]

definition haptic_play_sequence ::
  "u8 list option \<Rightarrow> u8 \<Rightarrow> svc_state \<Rightarrow> unit result \<times> svc_state" where
  "haptic_play_sequence effects count s =
     (case effects of
        None \<Rightarrow> (Inl EINVAL, s)
      | Some es \<Rightarrow>
          if count = 0 then (Inl EINVAL, s)
          else
            (let n = (if unat count > HAPTIC_MAX_DATA_SIZE
                      then of_nat HAPTIC_MAX_DATA_SIZE else count)
             in (case validate_effects es 0 (unat n) of
                   Inl e \<Rightarrow> (Inl e, s)
                 | Inr _ \<Rightarrow> queue_haptic_data HAPTIC_PATTERN_SEQUENCE (Some es) n s)))"

definition haptic_stop :: "svc_state \<Rightarrow> unit result \<times> svc_state" where
  "haptic_stop s = queue_haptic_data HAPTIC_PATTERN_STOP None 0 s"

text \<open>
  \<^verbatim>\<open>haptic_process_ble_data(data, len)\<close>. The buffer is \<open>None\<close> for a NULL pointer
  and otherwise the list of its \<^verbatim>\<open>len\<close> bytes, so \<^verbatim>\<open>len\<close> is the length of the
  list (a \<^verbatim>\<open>uint16_t\<close>: buffers of 65536 bytes or more do not arise), and
  \<^verbatim>\<open>&data[2]\<close> is the list without its first two bytes. The comparison
  \<^verbatim>\<open>len < 2 + count\<close> is done in \<^verbatim>\<open>int\<close> and cannot wrap.
\<close>

definition haptic_process_ble_data :: "u8 list option \<Rightarrow> svc_state \<Rightarrow> unit result \<times> svc_state" where
  "haptic_process_ble_data dat s =
     (case dat of
        None \<Rightarrow> (Inl EINVAL, s)
      | Some d \<Rightarrow>
          if length d < 1 then (Inl EINVAL, s)
          else
            (let cmd = d ! 0 in
             if cmd = HAPTIC_CMD_PLAY_EFFECT then
               (if length d < 2 then (Inl EINVAL, s) else haptic_play_effect (d ! 1) s)
             else if cmd = HAPTIC_CMD_PLAY_SEQUENCE then
               (if length d < 2 then (Inl EINVAL, s)
                else
                  (let count = d ! 1 in
                   if length d < 2 + unat count then (Inl EINVAL, s)
                   else haptic_play_sequence (Some (drop 2 d)) count s))
             else if cmd = HAPTIC_CMD_PLAY_PATTERN then
               (if length d < 2 then (Inl EINVAL, s) else haptic_play_pattern (unat (d ! 1)) s)
             else if cmd = HAPTIC_CMD_STOP then haptic_stop s
             else (Inl ENOTSUP, s)))"

subsection \<open>Example environments\<close>

text \<open>
  The driver state at program start (\<^verbatim>\<open>initialized = false\<close>, and
  \<^verbatim>\<open>motor_type\<close> zero-initialised, which is the first enumerator), on a given bus.
\<close>

definition power_on :: "bool \<Rightarrow> (nat \<Rightarrow> error option \<times> u8) \<Rightarrow> drv_state" where
  "power_on ready b =
     \<lparr>initialized = False, motor_type = DRV2605L_MOTOR_ERM, bus_ready = ready, bus = b,
      trace = []\<rparr>"

text \<open>A device that acknowledges every transaction and reads as 0 everywhere.\<close>

definition ack_bus :: "nat \<Rightarrow> error option \<times> u8" where
  "ack_bus n = (None, 0x00)"

text \<open>
  A device that acknowledges every transaction and reads as 1 on every transaction
  except number \<open>k\<close>, where it reads as 0.
\<close>

definition go_clears_at :: "nat \<Rightarrow> nat \<Rightarrow> error option \<times> u8" where
  "go_clears_at k n = (None, if n = k then 0x00 else 0x01)"

text \<open>A driver that has been initialized for the given motor type, on a given bus.\<close>

definition initialized_driver ::
  "drv2605l_motor_type_t \<Rightarrow> (nat \<Rightarrow> error option \<times> u8) \<Rightarrow> drv_state" where
  "initialized_driver mt b =
     \<lparr>initialized = True, motor_type = mt, bus_ready = True, bus = b, trace = []\<rparr>"

text \<open>A service with an empty FIFO and room for \<open>n\<close> requests on the heap.\<close>

definition idle_service :: "nat \<Rightarrow> svc_state" where
  "idle_service n = \<lparr>fifo = [], heap_blocks = n\<rparr>"

subsection \<open>Vocabulary of the properties\<close>

text \<open>
  The writes of the effects at indices \<open>i\<close> to \<open>n - 1\<close> of an array, each to its own
  waveform-sequence slot (slot \<open>j + 1\<close> is register \<^verbatim>\<open>DRV2605L_REG_WAVESEQ1 + j\<close>).
\<close>

definition slot_writes :: "u8 list \<Rightarrow> nat \<Rightarrow> nat \<Rightarrow> bus_event list" where
  "slot_writes es i n =
     map (\<lambda>j. WriteReg (DRV2605L_REG_WAVESEQ1 + of_nat j) (es ! j)) [i..<n]"

text \<open>
  The invariant of the requests on the FIFO: at most 32 payload bytes, as many as
  \<^verbatim>\<open>len\<close> says, and in a single-effect or sequence request at least one byte and
  every byte an effect id between 1 and 123.
\<close>

definition request_ok :: "haptic_data_t \<Rightarrow> bool" where
  "request_ok r \<longleftrightarrow>
     unat (h_len r) \<le> HAPTIC_MAX_DATA_SIZE \<and> length (h_data r) = unat (h_len r)
     \<and> (h_type r = HAPTIC_PATTERN_SINGLE_EFFECT \<or> h_type r = HAPTIC_PATTERN_SEQUENCE \<longrightarrow>
          h_len r \<noteq> 0 \<and> (\<forall>e\<in>set (h_data r). 1 \<le> e \<and> e \<le> 123))"

section \<open>Basic facts\<close>

text \<open>The range test on effect ids, read positively, and small counts as bytes.\<close>

lemma one_le_word_iff: "1 \<le> e \<longleftrightarrow> e \<noteq> (0::u8)"
  by (simp add: word_le_nat_alt Suc_le_eq unat_gt_0)

lemma in_range_iff: "\<not> (e < 1 \<or> e > 123) \<longleftrightarrow> 1 \<le> e \<and> e \<le> (123::u8)"
  by (simp add: not_less one_le_word_iff)

lemma unat_small: "m \<le> 32 \<Longrightarrow> unat (of_nat m :: u8) = m"
  by (simp add: unat_of_nat)

text \<open>A property of the first \<open>n\<close> elements of an array, by index and by membership.\<close>

lemma all_nth_take:
  assumes "n \<le> length es"
  shows "(\<forall>j<n. P (es ! j)) \<longleftrightarrow> (\<forall>e\<in>set (take n es). P e)"
proof -
  have "set (take n es) = (!) es ` {0..<n}"
    using assms by (simp add: nth_image)
  then show ?thesis by auto
qed

section \<open>Properties of the driver\<close>

subsection \<open>Register transactions and sequencing\<close>

lemma write_reg_Inr [simp]:
  "drv2605l_write_reg r v s = (Inr u, s') \<longleftrightarrow>
     fst (bus s (length (trace s))) = None \<and> s' = s\<lparr>trace := trace s @ [WriteReg r v]\<rparr>"
  by (auto simp: drv2605l_write_reg_def split: option.splits)

lemma write_reg_Inl [simp]:
  "drv2605l_write_reg r v s = (Inl e, s') \<longleftrightarrow>
     fst (bus s (length (trace s))) = Some e \<and> s' = s\<lparr>trace := trace s @ [WriteReg r v]\<rparr>"
  by (auto simp: drv2605l_write_reg_def split: option.splits)

lemma read_reg_Inr [simp]:
  "drv2605l_read_reg r s = (Inr v, s') \<longleftrightarrow>
     bus s (length (trace s)) = (None, v) \<and> s' = s\<lparr>trace := trace s @ [ReadReg r]\<rparr>"
  by (auto simp: drv2605l_read_reg_def prod_eq_iff split: option.splits)

lemma read_reg_Inl [simp]:
  "drv2605l_read_reg r s = (Inl e, s') \<longleftrightarrow>
     fst (bus s (length (trace s))) = Some e \<and> s' = s\<lparr>trace := trace s @ [ReadReg r]\<rparr>"
  by (auto simp: drv2605l_read_reg_def split: option.splits)

lemma then_do_Inr [simp]:
  "then_do f g s = (Inr x, s'') \<longleftrightarrow> (\<exists>s'. f s = (Inr (), s') \<and> g s' = (Inr x, s''))"
  by (auto simp: then_do_def split: prod.splits sum.splits)

lemma then_do_Inl [simp]:
  "then_do f g s = (Inl e, s'') \<longleftrightarrow>
     f s = (Inl e, s'') \<or> (\<exists>s'. f s = (Inr (), s') \<and> g s' = (Inl e, s''))"
  by (auto simp: then_do_def split: prod.splits sum.splits)

lemma return_ok_eq [simp]: "return_ok s = (r, s') \<longleftrightarrow> r = Inr () \<and> s' = s"
  by (auto simp: return_ok_def)

subsection \<open>Operations on an uninitialized driver\<close>

text \<open>
  The flag \<open>initialized\<close> is false at program start and only a successful
  \<^verbatim>\<open>drv2605l_init\<close> sets it: a failed one leaves it as it was.
\<close>

lemma init_failed_keeps_flag:
  "drv2605l_init type s = (Inl e, s') \<Longrightarrow> initialized s' = initialized s"
  by (auto simp: drv2605l_init_def split: if_splits prod.splits sum.splits)

text \<open>
  Claim C4. While the driver is not initialized, each of
  \<^verbatim>\<open>drv2605l_play_effect\<close>, \<^verbatim>\<open>drv2605l_play_sequence\<close>, \<^verbatim>\<open>drv2605l_stop\<close>,
  \<^verbatim>\<open>drv2605l_standby\<close>, \<^verbatim>\<open>drv2605l_wakeup\<close> and \<^verbatim>\<open>drv2605l_auto_calibrate\<close>
  returns the error \<open>ENODEV\<close>, whatever its arguments, and leaves the whole driver
  state as it was; in particular the bus trace is unchanged, so no register is written.
\<close>

theorem uninitialized_ops_fail:
  assumes "\<not> initialized s"
  shows "drv2605l_play_effect effect s = (Inl ENODEV, s)
       \<and> drv2605l_play_sequence effects count s = (Inl ENODEV, s)
       \<and> drv2605l_stop s = (Inl ENODEV, s)
       \<and> drv2605l_standby s = (Inl ENODEV, s)
       \<and> drv2605l_wakeup s = (Inl ENODEV, s)
       \<and> drv2605l_auto_calibrate s = (Inl ENODEV, s)"
  using assms
  by (simp add: drv2605l_play_effect_def drv2605l_play_sequence_def drv2605l_stop_def
      drv2605l_standby_def drv2605l_wakeup_def drv2605l_auto_calibrate_def)

text \<open>
  The theorem at the driver state of program start, with a valid effect and a valid
  two-element sequence as arguments.
\<close>

theorem uninitialized_ops_fail_witness:
  "\<not> initialized (power_on True ack_bus)
   \<and> drv2605l_play_effect 5 (power_on True ack_bus) = (Inl ENODEV, power_on True ack_bus)
   \<and> drv2605l_play_sequence (Some [1, 4]) 2 (power_on True ack_bus)
       = (Inl ENODEV, power_on True ack_bus)
   \<and> drv2605l_stop (power_on True ack_bus) = (Inl ENODEV, power_on True ack_bus)
   \<and> drv2605l_standby (power_on True ack_bus) = (Inl ENODEV, power_on True ack_bus)
   \<and> drv2605l_wakeup (power_on True ack_bus) = (Inl ENODEV, power_on True ack_bus)
   \<and> drv2605l_auto_calibrate (power_on True ack_bus) = (Inl ENODEV, power_on True ack_bus)"
proof -
  have h: "\<not> initialized (power_on True ack_bus)"
    by (simp add: power_on_def)
  show ?thesis
    using h uninitialized_ops_fail [OF h, of 5 "Some [1, 4]" 2] by simp
qed

subsection \<open>Register writes of initialization\<close>

text \<open>
  Claim C5 as stated does not hold: on a device that acknowledges everything,
  \<^verbatim>\<open>drv2605l_init\<close> with the LRA motor type succeeds and has written the three
  control registers.
\<close>

theorem init_lra_control_registers_written:
  "fst (drv2605l_init DRV2605L_MOTOR_LRA (power_on True ack_bus)) = Inr ()
   \<and> WriteReg DRV2605L_REG_CONTROL1 0x93
       \<in> set (trace (snd (drv2605l_init DRV2605L_MOTOR_LRA (power_on True ack_bus))))
   \<and> WriteReg DRV2605L_REG_CONTROL2 0xF5
       \<in> set (trace (snd (drv2605l_init DRV2605L_MOTOR_LRA (power_on True ack_bus))))
   \<and> WriteReg DRV2605L_REG_CONTROL3 0xA0
       \<in> set (trace (snd (drv2605l_init DRV2605L_MOTOR_LRA (power_on True ack_bus))))"
  by (simp add: drv2605l_init_def power_on_def ack_bus_def then_do_def return_ok_def
      drv2605l_write_reg_def drv2605l_read_reg_def)

text \<open>
  Claim C5, amended. When \<^verbatim>\<open>drv2605l_init\<close> is called with the LRA motor type and
  succeeds, its bus transactions are exactly, in this order: the read of the status
  register, then writes of the mode register (internal trigger), the library-selection
  register (LRA library), the feedback-control register (0x80) and the three control
  registers (0x93, 0xF5, 0xA0). The rated-voltage and overdrive-clamp registers are not
  written.
\<close>

theorem init_lra_writes:
  assumes "drv2605l_init DRV2605L_MOTOR_LRA s = (Inr (), s')"
  shows "trace s' = trace s @
     [ReadReg DRV2605L_REG_STATUS,
      WriteReg DRV2605L_REG_MODE DRV2605L_MODE_INTTRIG,
      WriteReg DRV2605L_REG_LIBRARY DRV2605L_LIB_LRA,
      WriteReg DRV2605L_REG_FEEDBACK 0x80,
      WriteReg DRV2605L_REG_CONTROL1 0x93,
      WriteReg DRV2605L_REG_CONTROL2 0xF5,
      WriteReg DRV2605L_REG_CONTROL3 0xA0]"
  using assms
  by (auto simp: drv2605l_init_def split: if_splits prod.splits sum.splits)

theorem init_lra_writes_witness:
  "drv2605l_init DRV2605L_MOTOR_LRA (power_on True ack_bus)
     = (Inr (),
        \<lparr>initialized = True, motor_type = DRV2605L_MOTOR_LRA, bus_ready = True, bus = ack_bus,
         trace = [ReadReg DRV2605L_REG_STATUS,
                  WriteReg DRV2605L_REG_MODE DRV2605L_MODE_INTTRIG,
                  WriteReg DRV2605L_REG_LIBRARY DRV2605L_LIB_LRA,
                  WriteReg DRV2605L_REG_FEEDBACK 0x80,
                  WriteReg DRV2605L_REG_CONTROL1 0x93,
                  WriteReg DRV2605L_REG_CONTROL2 0xF5,
                  WriteReg DRV2605L_REG_CONTROL3 0xA0]\<rparr>)
   \<and> trace \<lparr>initialized = True, motor_type = DRV2605L_MOTOR_LRA, bus_ready = True,
             bus = ack_bus,
             trace = [ReadReg DRV2605L_REG_STATUS,
                      WriteReg DRV2605L_REG_MODE DRV2605L_MODE_INTTRIG,
                      WriteReg DRV2605L_REG_LIBRARY DRV2605L_LIB_LRA,
                      WriteReg DRV2605L_REG_FEEDBACK 0x80,
                      WriteReg DRV2605L_REG_CONTROL1 0x93,
                      WriteReg DRV2605L_REG_CONTROL2 0xF5,
                      WriteReg DRV2605L_REG_CONTROL3 0xA0]\<rparr>
       = trace (power_on True ack_bus) @
         [ReadReg DRV2605L_REG_STATUS,
          WriteReg DRV2605L_REG_MODE DRV2605L_MODE_INTTRIG,
          WriteReg DRV2605L_REG_LIBRARY DRV2605L_LIB_LRA,
          WriteReg DRV2605L_REG_FEEDBACK 0x80,
          WriteReg DRV2605L_REG_CONTROL1 0x93,
          WriteReg DRV2605L_REG_CONTROL2 0xF5,
          WriteReg DRV2605L_REG_CONTROL3 0xA0]"
proof -
  have h: "drv2605l_init DRV2605L_MOTOR_LRA (power_on True ack_bus)
     = (Inr (),
        \<lparr>initialized = True, motor_type = DRV2605L_MOTOR_LRA, bus_ready = True, bus = ack_bus,
         trace = [ReadReg DRV2605L_REG_STATUS,
                  WriteReg DRV2605L_REG_MODE DRV2605L_MODE_INTTRIG,
                  WriteReg DRV2605L_REG_LIBRARY DRV2605L_LIB_LRA,
                  WriteReg DRV2605L_REG_FEEDBACK 0x80,
                  WriteReg DRV2605L_REG_CONTROL1 0x93,
                  WriteReg DRV2605L_REG_CONTROL2 0xF5,
                  WriteReg DRV2605L_REG_CONTROL3 0xA0]\<rparr>)"
    by (simp add: drv2605l_init_def power_on_def ack_bus_def then_do_def return_ok_def
        drv2605l_write_reg_def drv2605l_read_reg_def)
  show ?thesis
    using h init_lra_writes [OF h] by simp
qed

subsection \<open>The polling loop of auto-calibration\<close>

text \<open>
  If the go bit reads as set on the first \<open>m\<close> polls and as clear on the next one,
  all without bus errors, and \<open>m < timeout\<close>, the loop is left by \<^verbatim>\<open>break\<close> after
  \<open>m + 1\<close> reads with the counter at \<open>timeout - 1 - m\<close>.
\<close>

lemma calibration_poll_clears:
  assumes "\<forall>k<m. fst (bus s (length (trace s) + k)) = None
                \<and> snd (bus s (length (trace s) + k)) AND 0x01 \<noteq> 0"
    and "fst (bus s (length (trace s) + m)) = None"
    and "snd (bus s (length (trace s) + m)) AND 0x01 = 0"
    and "int m < timeout"
  shows "calibration_poll timeout s =
           (Inr (timeout - 1 - int m),
            s\<lparr>trace := trace s @ replicate (Suc m) (ReadReg DRV2605L_REG_GO)\<rparr>)"
  using assms
proof (induction m arbitrary: timeout s)
  case 0
  then show ?case
    using calibration_poll.simps [of timeout s] by (simp add: drv2605l_read_reg_def)
next
  case (Suc m)
  let ?s' = "s\<lparr>trace := trace s @ [ReadReg DRV2605L_REG_GO]\<rparr>"
  from Suc.prems(1) have first: "fst (bus s (length (trace s))) = None"
    "snd (bus s (length (trace s))) AND 0x01 \<noteq> 0"
    by (metis add.right_neutral zero_less_Suc)+
  have rest: "\<forall>k<m. fst (bus ?s' (length (trace ?s') + k)) = None
                \<and> snd (bus ?s' (length (trace ?s') + k)) AND 0x01 \<noteq> 0"
    using Suc.prems(1) by auto
  have step: "calibration_poll (timeout - 1) ?s' =
           (Inr (timeout - 1 - 1 - int m),
            ?s'\<lparr>trace := trace ?s' @ replicate (Suc m) (ReadReg DRV2605L_REG_GO)\<rparr>)"
    by (rule Suc.IH [OF rest]) (use Suc.prems in auto)
  have "calibration_poll timeout s = calibration_poll (timeout - 1) ?s'"
    using first Suc.prems(4) calibration_poll.simps [of timeout s]
    by (simp add: drv2605l_read_reg_def)
  with step show ?case by (simp add: replicate_app_Cons_same)
qed

text \<open>
  If the go bit reads as set on every poll, without bus errors, the loop ends when its
  test fails, after \<open>timeout\<close> reads, with the counter at -1.
\<close>

lemma calibration_poll_never_clears:
  assumes "\<forall>k<nat timeout. fst (bus s (length (trace s) + k)) = None
                \<and> snd (bus s (length (trace s) + k)) AND 0x01 \<noteq> 0"
  shows "calibration_poll timeout s =
           (Inr (min timeout 0 - 1),
            s\<lparr>trace := trace s @ replicate (nat timeout) (ReadReg DRV2605L_REG_GO)\<rparr>)"
  using assms
proof (induction "nat timeout" arbitrary: timeout s)
  case 0
  then show ?case
    using calibration_poll.simps [of timeout s] by simp
next
  case (Suc d)
  let ?s' = "s\<lparr>trace := trace s @ [ReadReg DRV2605L_REG_GO]\<rparr>"
  have pos: "0 < timeout" using Suc.hyps(2) by simp
  have d: "d = nat (timeout - 1)" using Suc.hyps(2) by simp
  from Suc.prems Suc.hyps(2) have first: "fst (bus s (length (trace s))) = None"
    "snd (bus s (length (trace s))) AND 0x01 \<noteq> 0"
    by (metis add.right_neutral zero_less_Suc)+
  have rest: "\<forall>k<nat (timeout - 1). fst (bus ?s' (length (trace ?s') + k)) = None
                \<and> snd (bus ?s' (length (trace ?s') + k)) AND 0x01 \<noteq> 0"
  proof (intro allI impI)
    fix k assume "k < nat (timeout - 1)"
    then have "Suc k < nat timeout" by simp
    with Suc.prems have "fst (bus s (length (trace s) + Suc k)) = None
                \<and> snd (bus s (length (trace s) + Suc k)) AND 0x01 \<noteq> 0"
      by blast
    then show "fst (bus ?s' (length (trace ?s') + k)) = None
                \<and> snd (bus ?s' (length (trace ?s') + k)) AND 0x01 \<noteq> 0"
      by simp
  qed
  have step: "calibration_poll (timeout - 1) ?s' =
           (Inr (min (timeout - 1) 0 - 1),
            ?s'\<lparr>trace := trace ?s' @ replicate (nat (timeout - 1)) (ReadReg DRV2605L_REG_GO)\<rparr>)"
    by (rule Suc.hyps(1) [OF d rest])
  have "calibration_poll timeout s = calibration_poll (timeout - 1) ?s'"
    using first pos calibration_poll.simps [of timeout s]
    by (simp add: drv2605l_read_reg_def)
  moreover have "nat timeout = Suc (nat (timeout - 1))" using pos by simp
  ultimately show ?case
    using step pos by (simp add: replicate_app_Cons_same min_def)
qed

text \<open>
  Claim C6, at the input where the code departs from it. The driver is initialized for
  an LRA motor; the device acknowledges everything, and the go register reads as 1 on
  polls 1 to 99 and as 0 on poll 100 (bus transaction 101, after the two writes that
  start the calibration). The call reads the go register 100 times, the last read
  returns a clear bit, and the call returns \<open>ETIMEDOUT\<close> without reading the status
  register.
\<close>

theorem auto_calibrate_last_poll_times_out:
  "drv2605l_auto_calibrate
     \<lparr>initialized = True, motor_type = DRV2605L_MOTOR_LRA, bus_ready = True,
      bus = go_clears_at 101, trace = []\<rparr>
   = (Inl ETIMEDOUT,
      \<lparr>initialized = True, motor_type = DRV2605L_MOTOR_LRA, bus_ready = True,
       bus = go_clears_at 101,
       trace = WriteReg DRV2605L_REG_MODE DRV2605L_MODE_AUTOCAL # WriteReg DRV2605L_REG_GO 0x01
               # replicate 100 (ReadReg DRV2605L_REG_GO)\<rparr>)
   \<and> snd (go_clears_at 101 101) AND 0x01 = 0"
proof -
  let ?t = "\<lparr>initialized = True, motor_type = DRV2605L_MOTOR_LRA, bus_ready = True,
      bus = go_clears_at 101,
      trace = [WriteReg DRV2605L_REG_MODE DRV2605L_MODE_AUTOCAL, WriteReg DRV2605L_REG_GO 0x01]\<rparr>"
  have "calibration_poll 100 ?t =
          (Inr (100 - 1 - int 99),
           ?t\<lparr>trace := trace ?t @ replicate (Suc 99) (ReadReg DRV2605L_REG_GO)\<rparr>)"
    by (rule calibration_poll_clears) (simp_all add: go_clears_at_def)
  then have poll: "calibration_poll 100 ?t =
          (Inr 0, ?t\<lparr>trace := trace ?t @ replicate 100 (ReadReg DRV2605L_REG_GO)\<rparr>)"
    by simp
  show ?thesis
    by (simp add: drv2605l_auto_calibrate_def then_do_def drv2605l_write_reg_def poll
        go_clears_at_def)
qed

text \<open>
  For contrast: when the go register reads as 0 one poll earlier, on poll 99, the call
  goes on to read the status register and succeeds.
\<close>

lemma auto_calibrate_poll_99_succeeds:
  "drv2605l_auto_calibrate (initialized_driver DRV2605L_MOTOR_LRA (go_clears_at 100))
   = (Inr (),
      \<lparr>initialized = True, motor_type = DRV2605L_MOTOR_LRA, bus_ready = True,
       bus = go_clears_at 100,
       trace = WriteReg DRV2605L_REG_MODE DRV2605L_MODE_AUTOCAL # WriteReg DRV2605L_REG_GO 0x01
               # replicate 99 (ReadReg DRV2605L_REG_GO)
               @ [ReadReg DRV2605L_REG_STATUS,
                  WriteReg DRV2605L_REG_MODE DRV2605L_MODE_INTTRIG]\<rparr>)"
proof -
  let ?t = "\<lparr>initialized = True, motor_type = DRV2605L_MOTOR_LRA, bus_ready = True,
      bus = go_clears_at 100,
      trace = [WriteReg DRV2605L_REG_MODE DRV2605L_MODE_AUTOCAL, WriteReg DRV2605L_REG_GO 0x01]\<rparr>"
  have "calibration_poll 100 ?t =
          (Inr (100 - 1 - int 98),
           ?t\<lparr>trace := trace ?t @ replicate (Suc 98) (ReadReg DRV2605L_REG_GO)\<rparr>)"
    by (rule calibration_poll_clears) (simp_all add: go_clears_at_def)
  then have poll: "calibration_poll 100 ?t =
          (Inr 1, ?t\<lparr>trace := trace ?t @ replicate 99 (ReadReg DRV2605L_REG_GO)\<rparr>)"
    by simp
  show ?thesis
    by (simp add: drv2605l_auto_calibrate_def initialized_driver_def then_do_def
        drv2605l_write_reg_def drv2605l_read_reg_def poll go_clears_at_def)
qed

text \<open>
  What the code does in general, on an initialized LRA driver whose bus acknowledges
  everything: it returns \<open>ETIMEDOUT\<close> exactly when the go bit is still set on each of
  the first 99 polls, whatever poll 100 reads.
\<close>

lemma auto_calibrate_timeout_iff:
  assumes "initialized s" "motor_type s = DRV2605L_MOTOR_LRA"
    and acks: "\<forall>k. fst (bus s k) = None"
  shows "fst (drv2605l_auto_calibrate s) = Inl ETIMEDOUT \<longleftrightarrow>
           (\<forall>j<99. snd (bus s (length (trace s) + 2 + j)) AND 0x01 \<noteq> 0)"
proof -
  define t where "t = s\<lparr>trace := trace s @
      [WriteReg DRV2605L_REG_MODE DRV2605L_MODE_AUTOCAL, WriteReg DRV2605L_REG_GO 0x01]\<rparr>"
  have bt: "bus t = bus s" and lt: "length (trace t) = length (trace s) + 2"
    by (simp_all add: t_def)
  have unf: "drv2605l_auto_calibrate s =
     (case calibration_poll 100 t of
        (Inl e, t') \<Rightarrow> (Inl e, t')
      | (Inr timeout, t') \<Rightarrow>
          if timeout \<le> 0 then (Inl ETIMEDOUT, t')
          else
            (case drv2605l_read_reg DRV2605L_REG_STATUS t' of
               (Inl e, t'') \<Rightarrow> (Inl e, t'')
             | (Inr status, t'') \<Rightarrow>
                 if status AND 0x08 \<noteq> 0 then (Inl EIO, t'')
                 else drv2605l_write_reg DRV2605L_REG_MODE DRV2605L_MODE_INTTRIG t''))"
    using assms
    by (simp add: drv2605l_auto_calibrate_def then_do_def drv2605l_write_reg_def t_def)
  show ?thesis
  proof (cases "\<forall>j<99. snd (bus s (length (trace s) + 2 + j)) AND 0x01 \<noteq> 0")
    case True
    have "\<exists>r t'. calibration_poll 100 t = (Inr r, t') \<and> r \<le> 0"
    proof (cases "snd (bus s (length (trace s) + 2 + 99)) AND 0x01 = 0")
      case clear: True
      have "calibration_poll 100 t =
          (Inr (100 - 1 - int 99), t\<lparr>trace := trace t @ replicate (Suc 99) (ReadReg DRV2605L_REG_GO)\<rparr>)"
        using True clear acks by (intro calibration_poll_clears) (simp_all add: bt lt)
      then show ?thesis by simp
    next
      case set: False
      have "\<forall>k<nat 100. snd (bus s (length (trace s) + 2 + k)) AND 0x01 \<noteq> 0"
      proof (intro allI impI)
        fix k :: nat assume "k < nat 100"
        then have "k < 99 \<or> k = 99" by auto
        then show "snd (bus s (length (trace s) + 2 + k)) AND 0x01 \<noteq> 0"
          using True set by blast
      qed
      then have "calibration_poll 100 t =
          (Inr (min 100 0 - 1), t\<lparr>trace := trace t @ replicate (nat 100) (ReadReg DRV2605L_REG_GO)\<rparr>)"
        using acks by (intro calibration_poll_never_clears) (simp add: bt lt)
      then show ?thesis by simp
    qed
    then show ?thesis using True by (auto simp: unf)
  next
    case False
    define m where "m = (LEAST j. j < 99 \<and> snd (bus s (length (trace s) + 2 + j)) AND 0x01 = 0)"
    from False have ex: "\<exists>j. j < 99 \<and> snd (bus s (length (trace s) + 2 + j)) AND 0x01 = 0"
      by blast
    have m: "m < 99" "snd (bus s (length (trace s) + 2 + m)) AND 0x01 = 0"
      using LeastI_ex [OF ex] by (simp_all add: m_def)
    have before: "\<forall>k<m. snd (bus s (length (trace s) + 2 + k)) AND 0x01 \<noteq> 0"
    proof (intro allI impI)
      fix k assume "k < m"
      then have "\<not> (k < 99 \<and> snd (bus s (length (trace s) + 2 + k)) AND 0x01 = 0)"
        unfolding m_def by (rule not_less_Least)
      then show "snd (bus s (length (trace s) + 2 + k)) AND 0x01 \<noteq> 0"
        using \<open>k < m\<close> m(1) by simp
    qed
    let ?t' = "t\<lparr>trace := trace t @ replicate (Suc m) (ReadReg DRV2605L_REG_GO)\<rparr>"
    have poll: "calibration_poll 100 t = (Inr (100 - 1 - int m), ?t')"
      using before m acks by (intro calibration_poll_clears) (simp_all add: bt lt)
    have "fst (drv2605l_auto_calibrate s) \<noteq> Inl ETIMEDOUT"
      using m(1) acks
      by (simp add: unf poll drv2605l_read_reg_def drv2605l_write_reg_def bt)
    then show ?thesis using False by simp
  qed
qed

subsection \<open>The loop that programs the waveform slots\<close>

lemma slot_writes_Nil [simp]: "n \<le> i \<Longrightarrow> slot_writes es i n = []"
  by (simp add: slot_writes_def)

lemma slot_writes_Cons:
  "i < n \<Longrightarrow> slot_writes es i n
     = WriteReg (DRV2605L_REG_WAVESEQ1 + of_nat i) (es ! i) # slot_writes es (Suc i) n"
  by (simp add: slot_writes_def upt_conv_Cons)

lemma program_waveseq_done: "n \<le> i \<Longrightarrow> program_waveseq es i n s = (Inr (), s)"
  using program_waveseq.simps [of es i n s] by simp

lemma program_waveseq_bad:
  "i < n \<Longrightarrow> i < length es \<Longrightarrow> \<not> (1 \<le> es ! i \<and> es ! i \<le> 123) \<Longrightarrow>
     program_waveseq es i n s = (Inl EINVAL, s)"
  using program_waveseq.simps [of es i n s] in_range_iff [of "es ! i"] by auto

lemma program_waveseq_step:
  "i < n \<Longrightarrow> i < length es \<Longrightarrow> 1 \<le> es ! i \<and> es ! i \<le> 123 \<Longrightarrow>
     program_waveseq es i n s =
       (case fst (bus s (length (trace s))) of
          Some e \<Rightarrow>
            (Inl e, s\<lparr>trace := trace s @ [WriteReg (DRV2605L_REG_WAVESEQ1 + of_nat i) (es ! i)]\<rparr>)
        | None \<Rightarrow>
            program_waveseq es (Suc i) n
              (s\<lparr>trace := trace s @ [WriteReg (DRV2605L_REG_WAVESEQ1 + of_nat i) (es ! i)]\<rparr>))"
  using program_waveseq.simps [of es i n s] in_range_iff [of "es ! i"]
  by (auto simp: drv2605l_write_reg_def split: option.splits)

text \<open>
  When every element is valid and the bus acknowledges, the loop writes every slot
  from \<open>i\<close> to \<open>n - 1\<close>.
\<close>

lemma program_waveseq_ok:
  assumes "n \<le> length es"
    and "\<forall>j. i \<le> j \<and> j < n \<longrightarrow> 1 \<le> es ! j \<and> es ! j \<le> 123"
    and "\<forall>k. length (trace s) \<le> k \<longrightarrow> fst (bus s k) = None"
  shows "program_waveseq es i n s = (Inr (), s\<lparr>trace := trace s @ slot_writes es i n\<rparr>)"
  using assms
proof (induction "n - i" arbitrary: i s)
  case 0
  then show ?case by (simp add: program_waveseq_done)
next
  case (Suc d)
  then have lt: "i < n" "i < length es" and ok: "1 \<le> es ! i \<and> es ! i \<le> 123" by auto
  let ?s' = "s\<lparr>trace := trace s @ [WriteReg (DRV2605L_REG_WAVESEQ1 + of_nat i) (es ! i)]\<rparr>"
  have "program_waveseq es (Suc i) n ?s' = (Inr (), ?s'\<lparr>trace := trace ?s' @ slot_writes es (Suc i) n\<rparr>)"
    by (rule Suc.hyps(1)) (use Suc in auto)
  moreover have "fst (bus s (length (trace s))) = None" using Suc.prems(3) by simp
  ultimately show ?case
    using program_waveseq_step [OF lt ok, of s] by (simp add: slot_writes_Cons [OF lt(1)])
qed

text \<open>
  On any bus and any array, what the loop writes is an initial part of the slot
  writes, and all of them when the loop succeeds.
\<close>

lemma program_waveseq_shape:
  "\<exists>m. i \<le> m \<and> m \<le> max i n
       \<and> snd (program_waveseq es i n s) = s\<lparr>trace := trace s @ slot_writes es i m\<rparr>
       \<and> (fst (program_waveseq es i n s) = Inr () \<longrightarrow> m = max i n)"
proof (induction "n - i" arbitrary: i s)
  case 0
  then show ?case by (auto simp: program_waveseq_done intro!: exI [of _ i])
next
  case (Suc d)
  then have lt: "i < n" by simp
  show ?case
  proof (cases "i < length es \<and> 1 \<le> es ! i \<and> es ! i \<le> 123")
    case False
    then have "snd (program_waveseq es i n s) = s \<and> fst (program_waveseq es i n s) \<noteq> Inr ()"
      using lt program_waveseq.simps [of es i n s] program_waveseq_bad [of i n es s]
      by (cases "i < length es") auto
    then show ?thesis using lt by (auto intro!: exI [of _ i])
  next
    case True
    let ?s' = "s\<lparr>trace := trace s @ [WriteReg (DRV2605L_REG_WAVESEQ1 + of_nat i) (es ! i)]\<rparr>"
    show ?thesis
    proof (cases "fst (bus s (length (trace s)))")
      case (Some e)
      then have "program_waveseq es i n s = (Inl e, ?s')"
        using program_waveseq_step [of i n es s] lt True by simp
      then show ?thesis
        using lt by (auto intro!: exI [of _ "Suc i"] simp: slot_writes_Cons)
    next
      case None
      then have eq: "program_waveseq es i n s = program_waveseq es (Suc i) n ?s'"
        using program_waveseq_step [of i n es s] lt True by simp
      have "d = n - Suc i" using Suc.hyps(2) by simp
      from Suc.hyps(1) [OF this, of ?s']
      obtain m where m: "Suc i \<le> m" "m \<le> max (Suc i) n"
        "snd (program_waveseq es (Suc i) n ?s') = ?s'\<lparr>trace := trace ?s' @ slot_writes es (Suc i) m\<rparr>"
        "fst (program_waveseq es (Suc i) n ?s') = Inr () \<longrightarrow> m = max (Suc i) n"
        by blast
      have "i < m" using m(1) by simp
      then have sw: "slot_writes es i m
          = WriteReg (DRV2605L_REG_WAVESEQ1 + of_nat i) (es ! i) # slot_writes es (Suc i) m"
        by (rule slot_writes_Cons)
      have "snd (program_waveseq es i n s) = s\<lparr>trace := trace s @ slot_writes es i m\<rparr>"
        using m(3) eq sw by simp
      moreover have "fst (program_waveseq es i n s) = Inr () \<longrightarrow> m = max i n"
        using m(4) eq lt by (simp add: max_def)
      moreover have "i \<le> m" "m \<le> max i n"
        using m(1,2) lt by (simp_all add: max_def)
      ultimately show ?thesis by blast
    qed
  qed
qed

text \<open>
  When the first invalid element is at index \<open>k\<close>, the loop fails having written at
  most the \<open>k\<close> slots before it; on an acknowledging bus it writes exactly those and
  the error is \<open>EINVAL\<close>.
\<close>

lemma program_waveseq_invalid:
  assumes "i \<le> k" "k < n" "k < length es"
    and "\<forall>j. i \<le> j \<and> j < k \<longrightarrow> 1 \<le> es ! j \<and> es ! j \<le> 123"
    and "\<not> (1 \<le> es ! k \<and> es ! k \<le> 123)"
  shows "\<exists>m e. i \<le> m \<and> m \<le> k
           \<and> program_waveseq es i n s = (Inl e, s\<lparr>trace := trace s @ slot_writes es i m\<rparr>)
           \<and> ((\<forall>j<k - i. fst (bus s (length (trace s) + j)) = None) \<longrightarrow> m = k \<and> e = EINVAL)"
  using assms
proof (induction "k - i" arbitrary: i s)
  case 0
  then have "i = k" by simp
  then have "program_waveseq es i n s = (Inl EINVAL, s)"
    using program_waveseq_bad [of k n es s] 0 by simp
  then show ?case using \<open>i = k\<close> by (auto intro!: exI [of _ k])
next
  case (Suc d)
  then have lt: "i < k" "i < n" "i < length es" and ok: "1 \<le> es ! i \<and> es ! i \<le> 123" by auto
  let ?s' = "s\<lparr>trace := trace s @ [WriteReg (DRV2605L_REG_WAVESEQ1 + of_nat i) (es ! i)]\<rparr>"
  show ?case
  proof (cases "fst (bus s (length (trace s)))")
    case (Some e)
    then have "program_waveseq es i n s = (Inl e, s\<lparr>trace := trace s @ slot_writes es i (Suc i)\<rparr>)"
      using program_waveseq_step [OF lt(2,3) ok, of s] by (simp add: slot_writes_Cons)
    moreover have "\<not> (\<forall>j<k - i. fst (bus s (length (trace s) + j)) = None)"
      using Some lt(1) by (auto intro!: exI [of _ 0])
    ultimately show ?thesis using lt(1) by (intro exI [of _ "Suc i"] exI [of _ e]) auto
  next
    case None
    then have eq: "program_waveseq es i n s = program_waveseq es (Suc i) n ?s'"
      using program_waveseq_step [OF lt(2,3) ok, of s] by simp
    have "\<exists>m e. Suc i \<le> m \<and> m \<le> k
           \<and> program_waveseq es (Suc i) n ?s' = (Inl e, ?s'\<lparr>trace := trace ?s' @ slot_writes es (Suc i) m\<rparr>)
           \<and> ((\<forall>j<k - Suc i. fst (bus ?s' (length (trace ?s') + j)) = None) \<longrightarrow> m = k \<and> e = EINVAL)"
      by (rule Suc.hyps(1)) (use Suc lt in auto)
    then obtain m e where m: "Suc i \<le> m" "m \<le> k"
      "program_waveseq es (Suc i) n ?s' = (Inl e, ?s'\<lparr>trace := trace ?s' @ slot_writes es (Suc i) m\<rparr>)"
      "(\<forall>j<k - Suc i. fst (bus ?s' (length (trace ?s') + j)) = None) \<longrightarrow> m = k \<and> e = EINVAL"
      by blast
    have "i < m" using m(1) by simp
    then have sw: "slot_writes es i m
          = WriteReg (DRV2605L_REG_WAVESEQ1 + of_nat i) (es ! i) # slot_writes es (Suc i) m"
      by (rule slot_writes_Cons)
    have a: "program_waveseq es i n s = (Inl e, s\<lparr>trace := trace s @ slot_writes es i m\<rparr>)"
      using eq m(3) sw by simp
    have b: "(\<forall>j<k - i. fst (bus s (length (trace s) + j)) = None) \<longrightarrow> m = k \<and> e = EINVAL"
    proof
      assume all: "\<forall>j<k - i. fst (bus s (length (trace s) + j)) = None"
      have "\<forall>j<k - Suc i. fst (bus ?s' (length (trace ?s') + j)) = None"
      proof (intro allI impI)
        fix j assume "j < k - Suc i"
        then have "Suc j < k - i" by simp
        with all have "fst (bus s (length (trace s) + Suc j)) = None" by blast
        then show "fst (bus ?s' (length (trace ?s') + j)) = None" by simp
      qed
      with m(4) show "m = k \<and> e = EINVAL" by blast
    qed
    show ?thesis using a b m(1,2) by (intro exI [of _ m] exI [of _ e]) simp
  qed
qed

text \<open>On a valid array the loop can only fail with an error that the bus returned.\<close>

lemma program_waveseq_fails_on_bus_only:
  assumes "n \<le> length es"
    and "\<forall>j. i \<le> j \<and> j < n \<longrightarrow> 1 \<le> es ! j \<and> es ! j \<le> 123"
    and "fst (program_waveseq es i n s) = Inl e"
  shows "\<exists>k. fst (bus s k) = Some e"
  using assms
proof (induction "n - i" arbitrary: i s)
  case 0
  then show ?case by (simp add: program_waveseq_done)
next
  case (Suc d)
  then have lt: "i < n" "i < length es" and ok: "1 \<le> es ! i \<and> es ! i \<le> 123" by auto
  let ?s' = "s\<lparr>trace := trace s @ [WriteReg (DRV2605L_REG_WAVESEQ1 + of_nat i) (es ! i)]\<rparr>"
  show ?case
  proof (cases "fst (bus s (length (trace s)))")
    case (Some e')
    then have "program_waveseq es i n s = (Inl e', ?s')"
      using program_waveseq_step [OF lt ok, of s] by simp
    with Suc.prems(3) Some show ?thesis by auto
  next
    case None
    then have eq: "program_waveseq es i n s = program_waveseq es (Suc i) n ?s'"
      using program_waveseq_step [OF lt ok, of s] by simp
    have "\<exists>k. fst (bus ?s' k) = Some e"
      by (rule Suc.hyps(1)) (use Suc eq in auto)
    then show ?thesis by simp
  qed
qed

subsection \<open>Playing a sequence\<close>

lemma truncated_seq_count:
  "(if unat count > 8 then 8 else unat count) = min (unat count) 8"
  by (simp add: min_def)

lemma play_sequence_unfold:
  assumes "initialized s" "count \<noteq> 0"
  shows "drv2605l_play_sequence (Some es) count s =
     (case program_waveseq es 0 (min (unat count) 8) s of
        (Inl e, s') \<Rightarrow> (Inl e, s')
      | (Inr _, s') \<Rightarrow>
          (then_do (if min (unat count) 8 < 8
                    then drv2605l_write_reg (DRV2605L_REG_WAVESEQ1 + of_nat (min (unat count) 8)) 0x00
                    else return_ok)
                   (drv2605l_write_reg DRV2605L_REG_GO 0x01)) s')"
  using assms
  by (simp only: drv2605l_play_sequence_def truncated_seq_count Let_def then_do_def [of "program_waveseq _ _ _"])
     simp

lemma slot_writes_8:
  "slot_writes es 0 8 =
     [WriteReg DRV2605L_REG_WAVESEQ1 (es ! 0), WriteReg DRV2605L_REG_WAVESEQ2 (es ! 1),
      WriteReg DRV2605L_REG_WAVESEQ3 (es ! 2), WriteReg DRV2605L_REG_WAVESEQ4 (es ! 3),
      WriteReg DRV2605L_REG_WAVESEQ5 (es ! 4), WriteReg DRV2605L_REG_WAVESEQ6 (es ! 5),
      WriteReg DRV2605L_REG_WAVESEQ7 (es ! 6), WriteReg DRV2605L_REG_WAVESEQ8 (es ! 7)]"
proof -
  have "[0..<8] = [0, 1, 2, 3, 4, 5, 6, 7 :: nat]"
    by (simp add: upt_rec eval_nat_numeral)
  then show ?thesis by (simp add: slot_writes_def)
qed

lemma slot_writes_take: "m \<le> n \<Longrightarrow> slot_writes es 0 m = take m (slot_writes es 0 n)"
  by (simp add: slot_writes_def take_map)

text \<open>
  On any bus, what a call writes is an initial part of: the slot writes of the first
  \<open>min count 8\<close> effects, the terminator if fewer than 8 slots are used, the go
  trigger.
\<close>

lemma play_sequence_shape:
  assumes "initialized s" "count \<noteq> 0"
  shows "\<exists>k. trace (snd (drv2605l_play_sequence (Some es) count s)) =
           trace s @ take k (slot_writes es 0 (min (unat count) 8)
             @ (if min (unat count) 8 < 8
                then [WriteReg (DRV2605L_REG_WAVESEQ1 + of_nat (min (unat count) 8)) 0x00] else [])
             @ [WriteReg DRV2605L_REG_GO 0x01])"
proof -
  define n where "n = min (unat count) 8"
  define T where "T = (if n < 8 then [WriteReg (DRV2605L_REG_WAVESEQ1 + of_nat n) 0x00] else [])"
  define W where "W = slot_writes es 0 n @ T @ [WriteReg DRV2605L_REG_GO 0x01]"
  have unf: "drv2605l_play_sequence (Some es) count s =
     (case program_waveseq es 0 n s of
        (Inl e, s') \<Rightarrow> (Inl e, s')
      | (Inr _, s') \<Rightarrow>
          (then_do (if n < 8 then drv2605l_write_reg (DRV2605L_REG_WAVESEQ1 + of_nat n) 0x00
                    else return_ok)
                   (drv2605l_write_reg DRV2605L_REG_GO 0x01)) s')"
    unfolding n_def by (rule play_sequence_unfold [OF assms])
  obtain m where m: "m \<le> n"
    "snd (program_waveseq es 0 n s) = s\<lparr>trace := trace s @ slot_writes es 0 m\<rparr>"
    "fst (program_waveseq es 0 n s) = Inr () \<longrightarrow> m = n"
    using program_waveseq_shape [of 0 n es s] by auto
  have len: "length (slot_writes es 0 n) = n" by (simp add: slot_writes_def)
  have "\<exists>k. trace (snd (drv2605l_play_sequence (Some es) count s)) = trace s @ take k W"
  proof (cases "fst (program_waveseq es 0 n s)")
    case (Inl e)
    then have "drv2605l_play_sequence (Some es) count s = (Inl e, snd (program_waveseq es 0 n s))"
      by (cases "program_waveseq es 0 n s") (simp add: unf)
    then have "trace (snd (drv2605l_play_sequence (Some es) count s)) = trace s @ take m W"
      using m(1,2) len slot_writes_take [OF m(1), of es] by (simp add: W_def)
    then show ?thesis ..
  next
    case (Inr u)
    then have p: "program_waveseq es 0 n s = (Inr (), s\<lparr>trace := trace s @ slot_writes es 0 n\<rparr>)"
      using m(2,3) by (cases "program_waveseq es 0 n s") auto
    show ?thesis
    proof (cases "n < 8")
      case False
      then have "trace (snd (drv2605l_play_sequence (Some es) count s)) = trace s @ take (Suc n) W"
        using len by (simp add: unf p then_do_def return_ok_def drv2605l_write_reg_def W_def T_def)
      then show ?thesis ..
    next
      case True
      show ?thesis
      proof (cases "fst (bus s (length (trace s) + n))")
        case (Some e)
        then have "trace (snd (drv2605l_play_sequence (Some es) count s)) = trace s @ take (Suc n) W"
          using True len by (simp add: unf p then_do_def drv2605l_write_reg_def W_def T_def)
        then show ?thesis ..
      next
        case None
        then have "trace (snd (drv2605l_play_sequence (Some es) count s))
                     = trace s @ take (Suc (Suc n)) W"
          using True len by (simp add: unf p then_do_def drv2605l_write_reg_def W_def T_def)
        then show ?thesis ..
      qed
    qed
  qed
  then show ?thesis unfolding W_def T_def n_def .
qed

text \<open>
  On an acknowledging bus, a call whose first \<open>min count 8\<close> effects are valid
  succeeds and writes all of them.
\<close>

lemma play_sequence_ok:
  assumes "initialized s" "count \<noteq> 0" "min (unat count) 8 \<le> length es"
    and "\<forall>j<min (unat count) 8. 1 \<le> es ! j \<and> es ! j \<le> 123"
    and "\<forall>k. length (trace s) \<le> k \<longrightarrow> fst (bus s k) = None"
  shows "drv2605l_play_sequence (Some es) count s =
           (Inr (), s\<lparr>trace := trace s @ slot_writes es 0 (min (unat count) 8)
             @ (if min (unat count) 8 < 8
                then [WriteReg (DRV2605L_REG_WAVESEQ1 + of_nat (min (unat count) 8)) 0x00] else [])
             @ [WriteReg DRV2605L_REG_GO 0x01]\<rparr>)"
proof -
  define n where "n = min (unat count) 8"
  have unf: "drv2605l_play_sequence (Some es) count s =
     (case program_waveseq es 0 n s of
        (Inl e, s') \<Rightarrow> (Inl e, s')
      | (Inr _, s') \<Rightarrow>
          (then_do (if n < 8 then drv2605l_write_reg (DRV2605L_REG_WAVESEQ1 + of_nat n) 0x00
                    else return_ok)
                   (drv2605l_write_reg DRV2605L_REG_GO 0x01)) s')"
    unfolding n_def by (rule play_sequence_unfold [OF assms(1,2)])
  have p: "program_waveseq es 0 n s = (Inr (), s\<lparr>trace := trace s @ slot_writes es 0 n\<rparr>)"
    using assms(3-5) unfolding n_def by (intro program_waveseq_ok) auto
  have "drv2605l_play_sequence (Some es) count s =
           (Inr (), s\<lparr>trace := trace s @ slot_writes es 0 n
             @ (if n < 8 then [WriteReg (DRV2605L_REG_WAVESEQ1 + of_nat n) 0x00] else [])
             @ [WriteReg DRV2605L_REG_GO 0x01]\<rparr>)"
    using assms(5)
    by (simp add: unf p then_do_def return_ok_def drv2605l_write_reg_def)
  then show ?thesis unfolding n_def .
qed

lemma play_effect_fails_on_bus_only:
  assumes "initialized d" "1 \<le> e \<and> e \<le> 123" "fst (drv2605l_play_effect e d) = Inl err"
  shows "\<exists>k. fst (bus d k) = Some err"
proof -
  obtain d' where "drv2605l_play_effect e d = (Inl err, d')"
    using assms(3) by (cases "drv2605l_play_effect e d") auto
  then show ?thesis
    using assms(1,2) in_range_iff [of e]
    by (auto simp: drv2605l_play_effect_def)
qed

lemma play_sequence_fails_on_bus_only:
  assumes "initialized d" "count \<noteq> 0" "min (unat count) 8 \<le> length es"
    and "\<forall>e\<in>set (take (min (unat count) 8) es). 1 \<le> e \<and> e \<le> 123"
    and "fst (drv2605l_play_sequence (Some es) count d) = Inl err"
  shows "\<exists>k. fst (bus d k) = Some err"
proof -
  define n where "n = min (unat count) 8"
  have unf: "drv2605l_play_sequence (Some es) count d =
     (case program_waveseq es 0 n d of
        (Inl e, s') \<Rightarrow> (Inl e, s')
      | (Inr _, s') \<Rightarrow>
          (then_do (if n < 8 then drv2605l_write_reg (DRV2605L_REG_WAVESEQ1 + of_nat n) 0x00
                    else return_ok)
                   (drv2605l_write_reg DRV2605L_REG_GO 0x01)) s')"
    unfolding n_def by (rule play_sequence_unfold [OF assms(1,2)])
  have v: "\<forall>j. 0 \<le> j \<and> j < n \<longrightarrow> 1 \<le> es ! j \<and> es ! j \<le> 123"
    using assms(3,4) all_nth_take [of n es "\<lambda>e. 1 \<le> e \<and> e \<le> 123"] by (simp add: n_def)
  have nl: "n \<le> length es" using assms(3) by (simp add: n_def)
  obtain m where m: "snd (program_waveseq es 0 n d) = d\<lparr>trace := trace d @ slot_writes es 0 m\<rparr>"
    using program_waveseq_shape [of 0 n es d] by auto
  show ?thesis
  proof (cases "fst (program_waveseq es 0 n d)")
    case (Inl e)
    then have "fst (drv2605l_play_sequence (Some es) count d) = Inl e"
      by (cases "program_waveseq es 0 n d") (simp add: unf)
    with assms(5) have "e = err" by simp
    with Inl program_waveseq_fails_on_bus_only [OF nl v] show ?thesis by blast
  next
    case (Inr u)
    then have p: "program_waveseq es 0 n d = (Inr (), d\<lparr>trace := trace d @ slot_writes es 0 m\<rparr>)"
      using m by (cases "program_waveseq es 0 n d") auto
    obtain d' where "drv2605l_play_sequence (Some es) count d = (Inl err, d')"
      using assms(5) by (cases "drv2605l_play_sequence (Some es) count d") auto
    then show ?thesis
      unfolding unf p by (auto split: if_splits)
  qed
qed

text \<open>
  Claim C2 as stated does not hold. With the effects \<open>[5, 200]\<close> the call returns
  \<open>EINVAL\<close> after it has written 5 to waveform slot 1; and with eight valid effects
  followed by 200 the call succeeds, since only the first eight are looked at.
\<close>

theorem play_sequence_partial_write:
  "drv2605l_play_sequence (Some [5, 200]) 2 (initialized_driver DRV2605L_MOTOR_ERM ack_bus)
     = (Inl EINVAL,
        \<lparr>initialized = True, motor_type = DRV2605L_MOTOR_ERM, bus_ready = True, bus = ack_bus,
         trace = [WriteReg DRV2605L_REG_WAVESEQ1 5]\<rparr>)
   \<and> fst (drv2605l_play_sequence (Some [1, 1, 1, 1, 1, 1, 1, 1, 200]) 9
            (initialized_driver DRV2605L_MOTOR_ERM ack_bus)) = Inr ()"
  by (simp add: drv2605l_play_sequence_def initialized_driver_def ack_bus_def then_do_def
      return_ok_def drv2605l_write_reg_def program_waveseq.simps)

text \<open>
  Claim C2, amended. On an initialized driver, let the call have a non-null array and
  a count of at least 1, and let index \<open>k\<close>, among the first \<open>min count 8\<close>
  elements, hold the first effect id outside 1..123. Then the call returns an error,
  and all it has written are the first \<open>m\<close> effect ids, each to its waveform slot in
  order, for some \<open>m \<le> k\<close>: neither a terminator nor the go trigger is written. When
  the bus acknowledges these writes, \<open>m = k\<close> and the error is \<open>EINVAL\<close>. So nothing
  is written only when the first element is the invalid one.
\<close>

theorem play_sequence_invalid_effect:
  assumes "initialized s" "count \<noteq> 0" "k < min (unat count) 8" "k < length es"
    and "\<forall>e\<in>set (take k es). 1 \<le> e \<and> e \<le> 123"
    and "\<not> (1 \<le> es ! k \<and> es ! k \<le> 123)"
  shows "\<exists>m e. m \<le> k
           \<and> drv2605l_play_sequence (Some es) count s
               = (Inl e, s\<lparr>trace := trace s @ slot_writes es 0 m\<rparr>)
           \<and> ((\<forall>j<k. fst (bus s (length (trace s) + j)) = None) \<longrightarrow> m = k \<and> e = EINVAL)"
proof -
  have "\<forall>j<k. 1 \<le> es ! j \<and> es ! j \<le> 123"
    using assms(4,5) all_nth_take [of k es "\<lambda>e. 1 \<le> e \<and> e \<le> 123"] by simp
  with program_waveseq_invalid [of 0 k "min (unat count) 8" es s] assms(3,4,6)
  obtain m e where m: "m \<le> k"
    "program_waveseq es 0 (min (unat count) 8) s = (Inl e, s\<lparr>trace := trace s @ slot_writes es 0 m\<rparr>)"
    "(\<forall>j<k. fst (bus s (length (trace s) + j)) = None) \<longrightarrow> m = k \<and> e = EINVAL"
    by auto
  have "drv2605l_play_sequence (Some es) count s = (Inl e, s\<lparr>trace := trace s @ slot_writes es 0 m\<rparr>)"
    using m(2) by (simp add: play_sequence_unfold [OF assms(1,2)])
  with m(1,3) show ?thesis by blast
qed

theorem play_sequence_invalid_effect_witness:
  "(initialized (initialized_driver DRV2605L_MOTOR_ERM ack_bus) \<and> (4::u8) \<noteq> 0
      \<and> 2 < min (unat (4::u8)) 8 \<and> 2 < length [1, 4, 0, 7 :: u8]
      \<and> list_all (\<lambda>e. 1 \<le> e \<and> e \<le> 123) (take 2 [1, 4, 0, 7 :: u8])
      \<and> \<not> (1 \<le> [1, 4, 0, 7 :: u8] ! 2 \<and> [1, 4, 0, 7 :: u8] ! 2 \<le> 123))
   \<and> drv2605l_play_sequence (Some [1, 4, 0, 7]) 4 (initialized_driver DRV2605L_MOTOR_ERM ack_bus)
       = (Inl EINVAL,
          \<lparr>initialized = True, motor_type = DRV2605L_MOTOR_ERM, bus_ready = True, bus = ack_bus,
           trace = [WriteReg DRV2605L_REG_WAVESEQ1 1, WriteReg DRV2605L_REG_WAVESEQ2 4]\<rparr>)"
proof -
  let ?s = "initialized_driver DRV2605L_MOTOR_ERM ack_bus"
  let ?es = "[1, 4, 0, 7 :: u8]"
  have h: "initialized ?s" "(4::u8) \<noteq> 0" "2 < min (unat (4::u8)) 8" "2 < length ?es"
    "\<forall>e\<in>set (take 2 ?es). 1 \<le> e \<and> e \<le> 123" "\<not> (1 \<le> ?es ! 2 \<and> ?es ! 2 \<le> 123)"
    by (simp_all add: initialized_driver_def)
  have acks: "\<forall>j<2. fst (bus ?s (length (trace ?s) + j)) = None"
    by (simp add: initialized_driver_def ack_bus_def)
  from play_sequence_invalid_effect [OF h]
  obtain m e where "drv2605l_play_sequence (Some ?es) 4 ?s
               = (Inl e, ?s\<lparr>trace := trace ?s @ slot_writes ?es 0 m\<rparr>)"
    "(\<forall>j<2. fst (bus ?s (length (trace ?s) + j)) = None) \<longrightarrow> m = 2 \<and> e = EINVAL"
    by blast
  with acks have "drv2605l_play_sequence (Some ?es) 4 ?s
               = (Inl EINVAL, ?s\<lparr>trace := trace ?s @ slot_writes ?es 0 2\<rparr>)"
    by blast
  moreover have "slot_writes ?es 0 2 = [WriteReg DRV2605L_REG_WAVESEQ1 1, WriteReg DRV2605L_REG_WAVESEQ2 4]"
    by (simp add: slot_writes_def upt_rec)
  ultimately show ?thesis
    using h by (simp add: initialized_driver_def)
qed

text \<open>
  Claim C3. On an initialized driver, let a sequence of 8 or more effects be played
  (the worker passes the request's 32-byte array and its length), the first 8 of them
  valid, as they are in every request on the FIFO. On any bus, the transactions of the
  call are an initial part of: the first 8 effect ids written to waveform slots 1 to 8
  in order, then the go trigger; so the 9th and later effects are never written. None
  of the transactions writes the value 0: no terminator is written when all 8 slots
  are used (the terminator of shorter sequences is in \<open>play_sequence_ok\<close>). When the
  bus acknowledges, the call succeeds and its transactions are exactly these nine
  writes.
\<close>

theorem play_sequence_truncates:
  assumes "initialized s" "8 \<le> unat count" "8 \<le> length es"
    and "\<forall>e\<in>set (take 8 es). 1 \<le> e \<and> e \<le> 123"
  shows "(\<exists>k. trace (snd (drv2605l_play_sequence (Some es) count s)) =
            trace s @ take k
             [WriteReg DRV2605L_REG_WAVESEQ1 (es ! 0), WriteReg DRV2605L_REG_WAVESEQ2 (es ! 1),
              WriteReg DRV2605L_REG_WAVESEQ3 (es ! 2), WriteReg DRV2605L_REG_WAVESEQ4 (es ! 3),
              WriteReg DRV2605L_REG_WAVESEQ5 (es ! 4), WriteReg DRV2605L_REG_WAVESEQ6 (es ! 5),
              WriteReg DRV2605L_REG_WAVESEQ7 (es ! 6), WriteReg DRV2605L_REG_WAVESEQ8 (es ! 7),
              WriteReg DRV2605L_REG_GO 0x01])
       \<and> (\<forall>ev\<in>set (drop (length (trace s))
                        (trace (snd (drv2605l_play_sequence (Some es) count s)))).
             \<forall>r. ev \<noteq> WriteReg r 0x00)
       \<and> ((\<forall>k. length (trace s) \<le> k \<longrightarrow> fst (bus s k) = None) \<longrightarrow>
            drv2605l_play_sequence (Some es) count s =
              (Inr (),
               s\<lparr>trace := trace s @
                 [WriteReg DRV2605L_REG_WAVESEQ1 (es ! 0), WriteReg DRV2605L_REG_WAVESEQ2 (es ! 1),
                  WriteReg DRV2605L_REG_WAVESEQ3 (es ! 2), WriteReg DRV2605L_REG_WAVESEQ4 (es ! 3),
                  WriteReg DRV2605L_REG_WAVESEQ5 (es ! 4), WriteReg DRV2605L_REG_WAVESEQ6 (es ! 5),
                  WriteReg DRV2605L_REG_WAVESEQ7 (es ! 6), WriteReg DRV2605L_REG_WAVESEQ8 (es ! 7),
                  WriteReg DRV2605L_REG_GO 0x01]\<rparr>))"
proof -
  define W where "W =
             [WriteReg DRV2605L_REG_WAVESEQ1 (es ! 0), WriteReg DRV2605L_REG_WAVESEQ2 (es ! 1),
              WriteReg DRV2605L_REG_WAVESEQ3 (es ! 2), WriteReg DRV2605L_REG_WAVESEQ4 (es ! 3),
              WriteReg DRV2605L_REG_WAVESEQ5 (es ! 4), WriteReg DRV2605L_REG_WAVESEQ6 (es ! 5),
              WriteReg DRV2605L_REG_WAVESEQ7 (es ! 6), WriteReg DRV2605L_REG_WAVESEQ8 (es ! 7),
              WriteReg DRV2605L_REG_GO 0x01]"
  have n: "min (unat count) 8 = 8" using assms(2) by simp
  have c: "count \<noteq> 0" using assms(2) by auto
  have v: "\<forall>j<8. 1 \<le> es ! j \<and> es ! j \<le> 123"
    using assms(3,4) all_nth_take [of 8 es "\<lambda>e. 1 \<le> e \<and> e \<le> 123"] by simp
  have Weq: "slot_writes es 0 8 @ [WriteReg DRV2605L_REG_GO 0x01] = W"
    by (simp add: W_def slot_writes_8)
  obtain k where k: "trace (snd (drv2605l_play_sequence (Some es) count s)) = trace s @ take k W"
    using play_sequence_shape [OF assms(1) c, of es] Weq by (auto simp: n)
  have nz: "\<forall>ev\<in>set W. \<forall>r. ev \<noteq> WriteReg r 0x00"
    using v by (auto simp: W_def one_le_word_iff)
  have a: "\<exists>k. trace (snd (drv2605l_play_sequence (Some es) count s)) = trace s @ take k W"
    using k ..
  have b: "\<forall>ev\<in>set (drop (length (trace s))
                        (trace (snd (drv2605l_play_sequence (Some es) count s)))).
             \<forall>r. ev \<noteq> WriteReg r 0x00"
    using nz by (auto simp: k dest: in_set_takeD)
  have d: "(\<forall>k. length (trace s) \<le> k \<longrightarrow> fst (bus s k) = None) \<longrightarrow>
            drv2605l_play_sequence (Some es) count s = (Inr (), s\<lparr>trace := trace s @ W\<rparr>)"
    using play_sequence_ok [OF assms(1) c, of es] assms(3) v Weq by (simp add: n)
  show ?thesis
    using a b d unfolding W_def by blast
qed

theorem play_sequence_truncates_witness:
  "(initialized (initialized_driver DRV2605L_MOTOR_ERM ack_bus) \<and> 8 \<le> unat (10::u8)
      \<and> 8 \<le> length [1, 2, 3, 4, 5, 6, 7, 8, 9, 10 :: u8]
      \<and> list_all (\<lambda>e. 1 \<le> e \<and> e \<le> 123) (take 8 [1, 2, 3, 4, 5, 6, 7, 8, 9, 10 :: u8]))
   \<and> drv2605l_play_sequence (Some [1, 2, 3, 4, 5, 6, 7, 8, 9, 10]) 10
        (initialized_driver DRV2605L_MOTOR_ERM ack_bus)
       = (Inr (),
          \<lparr>initialized = True, motor_type = DRV2605L_MOTOR_ERM, bus_ready = True, bus = ack_bus,
           trace = [WriteReg DRV2605L_REG_WAVESEQ1 1, WriteReg DRV2605L_REG_WAVESEQ2 2,
                    WriteReg DRV2605L_REG_WAVESEQ3 3, WriteReg DRV2605L_REG_WAVESEQ4 4,
                    WriteReg DRV2605L_REG_WAVESEQ5 5, WriteReg DRV2605L_REG_WAVESEQ6 6,
                    WriteReg DRV2605L_REG_WAVESEQ7 7, WriteReg DRV2605L_REG_WAVESEQ8 8,
                    WriteReg DRV2605L_REG_GO 0x01]\<rparr>)"
proof -
  let ?s = "initialized_driver DRV2605L_MOTOR_ERM ack_bus"
  let ?es = "[1, 2, 3, 4, 5, 6, 7, 8, 9, 10 :: u8]"
  have h: "initialized ?s" "8 \<le> unat (10::u8)" "8 \<le> length ?es"
    "\<forall>e\<in>set (take 8 ?es). 1 \<le> e \<and> e \<le> 123"
    by (simp_all add: initialized_driver_def)
  have acks: "\<forall>k. length (trace ?s) \<le> k \<longrightarrow> fst (bus ?s k) = None"
    by (simp add: initialized_driver_def ack_bus_def)
  show ?thesis
    using h acks play_sequence_truncates [OF h]
    by (simp add: initialized_driver_def)
qed

section \<open>Properties of the haptic service\<close>

subsection \<open>Effect ids, the pattern table and the queue\<close>

lemma table_entries:
  "pat \<in> set predefined_patterns \<Longrightarrow>
     pat_count pat = of_nat (length (pat_effects pat)) \<and> pat_effects pat \<noteq> []
     \<and> length (pat_effects pat) \<le> 3 \<and> (\<forall>e\<in>set (pat_effects pat). 1 \<le> e \<and> e \<le> 123)"
  by (auto simp: predefined_patterns_def mk_pattern_def pattern_notification_def pattern_alert_def
      pattern_success_def pattern_error_def pattern_button_press_def pattern_long_press_def
      pattern_double_tap_def pattern_heartbeat_def pattern_ramp_up_def pattern_ramp_down_def
      pattern_pulse_def pattern_buzz_def)

lemma length_predefined_patterns: "length predefined_patterns = 12"
  by (simp add: predefined_patterns_def)

lemma queue_sequence:
  assumes "m \<le> 32" "0 < m" "m \<le> length es"
  shows "queue_haptic_data ty (Some es) (of_nat m) s =
     (if heap_blocks s = 0 then (Inl ENOMEM, s)
      else (Inr (), s\<lparr>heap_blocks := heap_blocks s - 1,
                     fifo := fifo s @ [\<lparr>h_type = ty, h_data = take m es, h_len = of_nat m\<rparr>]\<rparr>))"
proof -
  have u: "unat (of_nat m :: u8) = m" using assms(1) by (rule unat_small)
  have "(of_nat m :: u8) \<noteq> 0" using u assms(2) by auto
  then have "(of_nat m :: u8) > 0" by (simp add: word_greater_zero_iff)
  then show ?thesis using u assms(1) by (simp add: queue_haptic_data_def)
qed

lemma haptic_play_pattern_eq:
  assumes "pattern < 12"
  shows "haptic_play_pattern pattern s =
     (if heap_blocks s = 0 then (Inl ENOMEM, s)
      else (Inr (), s\<lparr>heap_blocks := heap_blocks s - 1,
                     fifo := fifo s @
                       [\<lparr>h_type = HAPTIC_PATTERN_SEQUENCE,
                         h_data = pat_effects (predefined_patterns ! pattern),
                         h_len = pat_count (predefined_patterns ! pattern)\<rparr>]\<rparr>))"
proof -
  let ?pat = "predefined_patterns ! pattern"
  have "?pat \<in> set predefined_patterns"
    using assms by (simp add: length_predefined_patterns)
  from table_entries [OF this]
  have c: "pat_count ?pat = of_nat (length (pat_effects ?pat))"
    and n: "0 < length (pat_effects ?pat)" "length (pat_effects ?pat) \<le> 32"
    by auto
  show ?thesis
    using assms queue_sequence [OF n(2) n(1) order_refl, of HAPTIC_PATTERN_SEQUENCE s]
    by (simp add: haptic_play_pattern_def length_predefined_patterns c Let_def)
qed

subsection \<open>The validation loop and the sequence entry point\<close>

lemma validate_effects_in_bounds:
  "n \<le> length es \<Longrightarrow>
     validate_effects es i n =
       (if \<forall>j. i \<le> j \<and> j < n \<longrightarrow> 1 \<le> es ! j \<and> es ! j \<le> 123 then Inr () else Inl EINVAL)"
proof (induction es i n rule: validate_effects.induct)
  case (1 effects i count)
  show ?case
  proof (cases "i < count")
    case False
    then show ?thesis
      using validate_effects.simps [of effects i count] by simp
  next
    case True
    show ?thesis
    proof (cases "effects ! i < 1 \<or> effects ! i > 123")
      case bad: True
      then have "\<not> (1 \<le> effects ! i \<and> effects ! i \<le> 123)"
        using in_range_iff by blast
      then have "\<not> (\<forall>j. i \<le> j \<and> j < count \<longrightarrow> 1 \<le> effects ! j \<and> effects ! j \<le> 123)"
        using True by blast
      then show ?thesis
        using True bad "1.prems" validate_effects.simps [of effects i count] by simp
    next
      case good: False
      then have g: "1 \<le> effects ! i \<and> effects ! i \<le> 123"
        using in_range_iff by blast
      have nb: "\<not> length effects \<le> i" using True "1.prems" by simp
      have "validate_effects effects i count = validate_effects effects (Suc i) count"
        using True good nb validate_effects.simps [of effects i count] by simp
      also have "\<dots> = (if \<forall>j. Suc i \<le> j \<and> j < count \<longrightarrow> 1 \<le> effects ! j \<and> effects ! j \<le> 123
                        then Inr () else Inl EINVAL)"
        using "1.IH" [OF True nb good "1.prems"] .
      also have "(\<forall>j. Suc i \<le> j \<and> j < count \<longrightarrow> 1 \<le> effects ! j \<and> effects ! j \<le> 123)
            \<longleftrightarrow> (\<forall>j. i \<le> j \<and> j < count \<longrightarrow> 1 \<le> effects ! j \<and> effects ! j \<le> 123)"
        using g by (metis Suc_leI Suc_leD le_neq_implies_less)
      finally show ?thesis .
    qed
  qed
qed

lemma validate_effects_take:
  assumes "n \<le> length es"
  shows "validate_effects es 0 n =
           (if \<forall>e\<in>set (take n es). 1 \<le> e \<and> e \<le> 123 then Inr () else Inl EINVAL)"
  using validate_effects_in_bounds [OF assms, of 0]
    all_nth_take [OF assms, of "\<lambda>e. 1 \<le> e \<and> e \<le> 123"]
  by simp

lemma truncated_count:
  "(if unat count > 32 then of_nat 32 else count) = (of_nat (min (unat count) 32) :: u8)"
  by (simp add: min_def)

lemma haptic_play_sequence_eq:
  assumes "min (unat count) 32 \<le> length es"
  shows "haptic_play_sequence (Some es) count s =
     (if count \<noteq> 0 \<and> (\<forall>e\<in>set (take (min (unat count) 32) es). 1 \<le> e \<and> e \<le> 123)
      then (if heap_blocks s = 0 then (Inl ENOMEM, s)
            else (Inr (),
                  s\<lparr>heap_blocks := heap_blocks s - 1,
                    fifo := fifo s @
                      [\<lparr>h_type = HAPTIC_PATTERN_SEQUENCE,
                        h_data = take (min (unat count) 32) es,
                        h_len = of_nat (min (unat count) 32)\<rparr>]\<rparr>))
      else (Inl EINVAL, s))"
proof (cases "count = 0")
  case True
  then show ?thesis by (simp add: haptic_play_sequence_def)
next
  case False
  let ?m = "min (unat count) 32"
  have m: "?m \<le> 32" "0 < ?m"
    using False by (simp_all add: unat_gt_0)
  have u: "unat (of_nat ?m :: u8) = ?m"
    using m(1) by (rule unat_small)
  have v: "validate_effects es 0 ?m =
          (if \<forall>e\<in>set (take ?m es). 1 \<le> e \<and> e \<le> 123 then Inr () else Inl EINVAL)"
    by (rule validate_effects_take [OF assms])
  show ?thesis
    using False queue_sequence [OF m assms, of HAPTIC_PATTERN_SEQUENCE s]
    by (simp only: haptic_play_sequence_def truncated_count u v Let_def option.case)
       (simp split: if_splits)
qed

subsection \<open>Decoding BLE commands\<close>

text \<open>
  Claim C9. Every buffer whose first byte is 0x04 decodes to a Stop request, whatever
  follows the first byte: when the heap can hold the request, the call returns 0 and
  appends one Stop request, with no payload, to the FIFO. (On an exhausted heap the
  queue's \<^verbatim>\<open>k_malloc\<close> fails and the call returns \<open>ENOMEM\<close>.)
\<close>

theorem stop_decodes:
  assumes "0 < heap_blocks s"
  shows "haptic_process_ble_data (Some (HAPTIC_CMD_STOP # rest)) s =
           (Inr (),
            s\<lparr>heap_blocks := heap_blocks s - 1,
              fifo := fifo s @ [\<lparr>h_type = HAPTIC_PATTERN_STOP, h_data = [], h_len = 0\<rparr>]\<rparr>)"
  using assms
  by (simp add: haptic_process_ble_data_def haptic_stop_def queue_haptic_data_def)

theorem stop_decodes_witness:
  "0 < heap_blocks (idle_service 2)
   \<and> haptic_process_ble_data (Some [0x04, 0xAA, 0xBB]) (idle_service 2) =
       (Inr (),
        \<lparr>fifo = [\<lparr>h_type = HAPTIC_PATTERN_STOP, h_data = [], h_len = 0\<rparr>], heap_blocks = 1\<rparr>)"
  using stop_decodes [of "idle_service 2" "[0xAA, 0xBB]"]
  by (simp add: idle_service_def)

text \<open>
  Claim C8. For a two-byte buffer \<open>[0x01, e]\<close>: if \<open>e\<close> lies between 1 and 123, then,
  when the heap can hold the request, the call returns 0 and appends one
  single-effect request whose payload is exactly \<open>e\<close>; if \<open>e\<close> lies outside that
  range the call returns \<open>EINVAL\<close> and the service state, the FIFO included, is
  unchanged.
\<close>

theorem single_effect_decodes:
  "(1 \<le> e \<and> e \<le> 123 \<and> 0 < heap_blocks s \<longrightarrow>
      haptic_process_ble_data (Some [HAPTIC_CMD_PLAY_EFFECT, e]) s =
        (Inr (),
         s\<lparr>heap_blocks := heap_blocks s - 1,
           fifo := fifo s @
             [\<lparr>h_type = HAPTIC_PATTERN_SINGLE_EFFECT, h_data = [e], h_len = 1\<rparr>]\<rparr>))
   \<and> (\<not> (1 \<le> e \<and> e \<le> 123) \<longrightarrow>
      haptic_process_ble_data (Some [HAPTIC_CMD_PLAY_EFFECT, e]) s = (Inl EINVAL, s))"
  by (auto simp: haptic_process_ble_data_def haptic_play_effect_def queue_haptic_data_def not_less one_le_word_iff)

theorem single_effect_decodes_witness:
  "(1 \<le> (14::u8) \<and> (14::u8) \<le> 123 \<and> 0 < heap_blocks (idle_service 2))
   \<and> haptic_process_ble_data (Some [0x01, 14]) (idle_service 2) =
       (Inr (),
        \<lparr>fifo = [\<lparr>h_type = HAPTIC_PATTERN_SINGLE_EFFECT, h_data = [14], h_len = 1\<rparr>],
         heap_blocks = 1\<rparr>)
   \<and> \<not> (1 \<le> (0::u8) \<and> (0::u8) \<le> 123)
   \<and> haptic_process_ble_data (Some [0x01, 0]) (idle_service 2) = (Inl EINVAL, idle_service 2)
   \<and> \<not> (1 \<le> (124::u8) \<and> (124::u8) \<le> 123)
   \<and> haptic_process_ble_data (Some [0x01, 124]) (idle_service 2) = (Inl EINVAL, idle_service 2)"
  using single_effect_decodes [of 14 "idle_service 2"]
    single_effect_decodes [of 0 "idle_service 2"]
    single_effect_decodes [of 124 "idle_service 2"]
  by (simp add: idle_service_def)

text \<open>
  Claim C7. For a two-byte buffer \<open>[0x03, p]\<close>: if \<open>p\<close> is at most 11, then, when the
  heap can hold the request, the call returns 0 and appends one sequence request whose
  payload is the entry of the static pattern table at index \<open>p\<close>; if \<open>p\<close> is larger
  the call returns \<open>EINVAL\<close> and nothing is enqueued. Entry 0 of the table is the single
  sharp-click effect and entry 3 is the strong-click effect three times.
\<close>

theorem pattern_decodes:
  "(p \<le> 11 \<and> 0 < heap_blocks s \<longrightarrow>
      haptic_process_ble_data (Some [HAPTIC_CMD_PLAY_PATTERN, p]) s =
        (Inr (),
         s\<lparr>heap_blocks := heap_blocks s - 1,
           fifo := fifo s @
             [\<lparr>h_type = HAPTIC_PATTERN_SEQUENCE,
               h_data = pat_effects (predefined_patterns ! unat p),
               h_len = pat_count (predefined_patterns ! unat p)\<rparr>]\<rparr>))
   \<and> (\<not> p \<le> 11 \<longrightarrow>
      haptic_process_ble_data (Some [HAPTIC_CMD_PLAY_PATTERN, p]) s = (Inl EINVAL, s))
   \<and> pat_effects (predefined_patterns ! 0) = [DRV2605L_EFFECT_SHARP_CLICK_100]
   \<and> pat_effects (predefined_patterns ! 3) =
       [DRV2605L_EFFECT_STRONG_CLICK_100, DRV2605L_EFFECT_STRONG_CLICK_100,
        DRV2605L_EFFECT_STRONG_CLICK_100]"
proof -
  have a: "p \<le> 11 \<longleftrightarrow> unat p < 12"
    by (simp add: word_le_nat_alt) arith
  have "haptic_process_ble_data (Some [HAPTIC_CMD_PLAY_PATTERN, p]) s = haptic_play_pattern (unat p) s"
    by (simp add: haptic_process_ble_data_def)
  moreover have "\<not> unat p < 12 \<Longrightarrow> haptic_play_pattern (unat p) s = (Inl EINVAL, s)"
    by (simp add: haptic_play_pattern_def length_predefined_patterns)
  moreover have "pat_effects (predefined_patterns ! 0) = [DRV2605L_EFFECT_SHARP_CLICK_100]"
    "pat_effects (predefined_patterns ! 3) =
       [DRV2605L_EFFECT_STRONG_CLICK_100, DRV2605L_EFFECT_STRONG_CLICK_100,
        DRV2605L_EFFECT_STRONG_CLICK_100]"
    by (simp_all add: predefined_patterns_def mk_pattern_def pattern_notification_def pattern_error_def)
  ultimately show ?thesis
    using a haptic_play_pattern_eq [of "unat p" s] by auto
qed

theorem pattern_decodes_witness:
  "((1::u8) \<le> 11 \<and> 0 < heap_blocks (idle_service 2))
   \<and> haptic_process_ble_data (Some [0x03, 1]) (idle_service 2) =
       (Inr (),
        \<lparr>fifo = [\<lparr>h_type = HAPTIC_PATTERN_SEQUENCE, h_data = [14, 14], h_len = 2\<rparr>],
         heap_blocks = 1\<rparr>)
   \<and> \<not> (12::u8) \<le> 11
   \<and> haptic_process_ble_data (Some [0x03, 12]) (idle_service 2) = (Inl EINVAL, idle_service 2)"
  using pattern_decodes [of 1 "idle_service 2"] pattern_decodes [of 12 "idle_service 2"]
  by (simp add: idle_service_def predefined_patterns_def mk_pattern_def pattern_alert_def)

text \<open>
  Claim C1 as stated does not hold. The buffer \<open>[0x02, 0x00]\<close> has length 2 + 0 and no
  effect byte out of range, and is rejected; the buffer \<open>[0x02, 0x01, 0x05, 0x09]\<close>
  has length 4, not 2 + 1, and is accepted as the sequence \<open>[5]\<close>; a buffer with
  \<open>N = 33\<close> followed by 33 valid effect bytes is accepted, and the request holds
  32 of them.
\<close>

theorem sequence_decode_counterexample:
  "haptic_process_ble_data (Some [0x02, 0x00]) (idle_service 1) = (Inl EINVAL, idle_service 1)
   \<and> haptic_process_ble_data (Some [0x02, 0x01, 0x05, 0x09]) (idle_service 1)
       = (Inr (), \<lparr>fifo = [\<lparr>h_type = HAPTIC_PATTERN_SEQUENCE, h_data = [0x05], h_len = 1\<rparr>],
                  heap_blocks = 0\<rparr>)
   \<and> haptic_process_ble_data (Some (0x02 # 33 # replicate 33 0x01)) (idle_service 1)
       = (Inr (), \<lparr>fifo = [\<lparr>h_type = HAPTIC_PATTERN_SEQUENCE, h_data = replicate 32 0x01,
                           h_len = 32\<rparr>],
                  heap_blocks = 0\<rparr>)"
proof -
  have a: "haptic_process_ble_data (Some [0x02, 0x00]) (idle_service 1) = (Inl EINVAL, idle_service 1)"
    by (simp add: haptic_process_ble_data_def haptic_play_sequence_def)
  have b: "haptic_process_ble_data (Some [0x02, 0x01, 0x05, 0x09]) (idle_service 1)
       = haptic_play_sequence (Some [0x05, 0x09]) 1 (idle_service 1)"
    by (simp add: haptic_process_ble_data_def)
  have c: "haptic_process_ble_data (Some (0x02 # 33 # replicate 33 0x01)) (idle_service 1)
       = haptic_play_sequence (Some (replicate 33 0x01)) 33 (idle_service 1)"
    by (simp add: haptic_process_ble_data_def)
  show ?thesis
    unfolding a b c
    by (simp add: haptic_play_sequence_eq idle_service_def)
qed

text \<open>
  Claim C1, amended. For a buffer that starts with 0x02 and a count byte \<open>N\<close>, followed
  by any bytes \<open>rest\<close>: if \<open>N\<close> is at least 1, at least \<open>N\<close> bytes follow and each of
  the first \<open>min N 32\<close> of them lies between 1 and 123, then, when the heap can hold
  the request, the call returns 0 and appends one sequence request holding those
  first \<open>min N 32\<close> bytes in their order; bytes after them are ignored. In every other
  case the call returns \<open>EINVAL\<close> and nothing is enqueued.
\<close>

theorem sequence_decodes:
  "(N \<noteq> 0 \<and> unat N \<le> length rest
      \<and> (\<forall>e\<in>set (take (min (unat N) 32) rest). 1 \<le> e \<and> e \<le> 123)
      \<and> 0 < heap_blocks s \<longrightarrow>
      haptic_process_ble_data (Some (HAPTIC_CMD_PLAY_SEQUENCE # N # rest)) s =
        (Inr (),
         s\<lparr>heap_blocks := heap_blocks s - 1,
           fifo := fifo s @
             [\<lparr>h_type = HAPTIC_PATTERN_SEQUENCE,
               h_data = take (min (unat N) 32) rest,
               h_len = of_nat (min (unat N) 32)\<rparr>]\<rparr>))
   \<and> (\<not> (N \<noteq> 0 \<and> unat N \<le> length rest
         \<and> (\<forall>e\<in>set (take (min (unat N) 32) rest). 1 \<le> e \<and> e \<le> 123)) \<longrightarrow>
      haptic_process_ble_data (Some (HAPTIC_CMD_PLAY_SEQUENCE # N # rest)) s = (Inl EINVAL, s))"
proof (cases "unat N \<le> length rest")
  case False
  then show ?thesis
    by (simp add: haptic_process_ble_data_def)
next
  case True
  then have b: "min (unat N) 32 \<le> length rest" by simp
  have "haptic_process_ble_data (Some (HAPTIC_CMD_PLAY_SEQUENCE # N # rest)) s
        = haptic_play_sequence (Some rest) N s"
    using True by (simp add: haptic_process_ble_data_def)
  then show ?thesis
    using True haptic_play_sequence_eq [OF b, of s] by auto
qed

text \<open>
  The theorem at the buffers \<open>[0x02, 0x03, 0x01, 0x01, 0x01]\<close>, which is accepted,
  and \<open>[0x02, 0x02, 5, 200]\<close>, whose second effect byte is out of range.
\<close>

theorem sequence_decodes_witness:
  "0 < heap_blocks (idle_service 2)
   \<and> haptic_process_ble_data (Some [0x02, 0x03, 0x01, 0x01, 0x01]) (idle_service 2) =
       (Inr (),
        \<lparr>fifo = [\<lparr>h_type = HAPTIC_PATTERN_SEQUENCE, h_data = [1, 1, 1], h_len = 3\<rparr>],
         heap_blocks = 1\<rparr>)
   \<and> haptic_process_ble_data (Some [0x02, 0x02, 5, 200]) (idle_service 2)
       = (Inl EINVAL, idle_service 2)"
proof -
  have ok: "(3::u8) \<noteq> 0 \<and> unat (3::u8) \<le> length [1, 1, 1 :: u8]
      \<and> (\<forall>e\<in>set (take (min (unat (3::u8)) 32) [1, 1, 1 :: u8]). 1 \<le> e \<and> e \<le> 123)
      \<and> 0 < heap_blocks (idle_service 2)"
    by (simp add: idle_service_def)
  have bad: "\<not> ((2::u8) \<noteq> 0 \<and> unat (2::u8) \<le> length [5, 200 :: u8]
        \<and> (\<forall>e\<in>set (take (min (unat (2::u8)) 32) [5, 200 :: u8]). 1 \<le> e \<and> e \<le> 123))"
    by simp
  show ?thesis
    using ok bad sequence_decodes [of 3 "[1, 1, 1]" "idle_service 2"]
      sequence_decodes [of 2 "[5, 200]" "idle_service 2"]
    by (simp add: idle_service_def)
qed

subsection \<open>The requests on the FIFO\<close>

text \<open>
  Claim C10. If every request on the FIFO satisfies the invariant \<open>request_ok\<close> (at
  most 32 payload bytes; in a single-effect or sequence request at least one byte and
  every byte between 1 and 123), then it still does after a call of any of
  \<^verbatim>\<open>haptic_play_effect\<close>, \<^verbatim>\<open>haptic_play_pattern\<close>,
  \<^verbatim>\<open>haptic_play_sequence\<close> (given an array that holds the \<open>min count 32\<close>
  elements the call reads) and \<^verbatim>\<open>haptic_stop\<close>, with any arguments. Consequently,
  when the worker plays a request of the FIFO on an initialized driver, calling
  \<^verbatim>\<open>drv2605l_play_effect\<close> on the first payload byte of a single-effect request or
  \<^verbatim>\<open>drv2605l_play_sequence\<close> on the payload and length of a sequence request, the
  driver's range validation never rejects it: whenever such a call fails, its error is
  one that the bus returned.
\<close>

theorem fifo_requests_valid:
  assumes "\<forall>r\<in>set (fifo s). request_ok r"
    and "\<forall>es. effects = Some es \<longrightarrow> min (unat count) 32 \<le> length es"
  shows "(\<forall>r\<in>set (fifo (snd (haptic_play_effect effect s))). request_ok r)
       \<and> (\<forall>r\<in>set (fifo (snd (haptic_play_pattern pattern s))). request_ok r)
       \<and> (\<forall>r\<in>set (fifo (snd (haptic_play_sequence effects count s))). request_ok r)
       \<and> (\<forall>r\<in>set (fifo (snd (haptic_stop s))). request_ok r)
       \<and> (\<forall>r\<in>set (fifo s). \<forall>d err. initialized d \<longrightarrow>
            (h_type r = HAPTIC_PATTERN_SINGLE_EFFECT
               \<and> fst (drv2605l_play_effect (h_data r ! 0) d) = Inl err
             \<longrightarrow> (\<exists>k. fst (bus d k) = Some err))
          \<and> (h_type r = HAPTIC_PATTERN_SEQUENCE
               \<and> fst (drv2605l_play_sequence (Some (h_data r)) (h_len r) d) = Inl err
             \<longrightarrow> (\<exists>k. fst (bus d k) = Some err)))"
proof (intro conjI)
  show "\<forall>r\<in>set (fifo (snd (haptic_play_effect effect s))). request_ok r"
    using assms(1) in_range_iff [of effect]
    by (auto simp: haptic_play_effect_def queue_haptic_data_def request_ok_def)
  show "\<forall>r\<in>set (fifo (snd (haptic_play_pattern pattern s))). request_ok r"
  proof (cases "pattern < 12")
    case False
    then show ?thesis
      using assms(1) by (simp add: haptic_play_pattern_def length_predefined_patterns)
  next
    case True
    let ?pat = "predefined_patterns ! pattern"
    have "?pat \<in> set predefined_patterns"
      using True by (simp add: length_predefined_patterns)
    from table_entries [OF this]
    have c: "pat_count ?pat = of_nat (length (pat_effects ?pat))"
      and n: "pat_effects ?pat \<noteq> []" "length (pat_effects ?pat) \<le> 3"
      and v: "\<forall>e\<in>set (pat_effects ?pat). 1 \<le> e \<and> e \<le> 123"
      by auto
    have u: "unat (pat_count ?pat) = length (pat_effects ?pat)"
      using n(2) by (simp add: c unat_small)
    have z: "pat_count ?pat \<noteq> 0"
      using u n(1) by auto
    show ?thesis
      using assms(1) n v u z haptic_play_pattern_eq [OF True, of s]
      by (auto simp: request_ok_def)
  qed
  show "\<forall>r\<in>set (fifo (snd (haptic_play_sequence effects count s))). request_ok r"
  proof (cases effects)
    case None
    then show ?thesis using assms(1) by (simp add: haptic_play_sequence_def)
  next
    case (Some es)
    then have b: "min (unat count) 32 \<le> length es" using assms(2) by simp
    have u: "unat (of_nat (min (unat count) 32) :: u8) = min (unat count) 32"
      by (rule unat_small) simp
    have z: "count \<noteq> 0 \<Longrightarrow> (of_nat (min (unat count) 32) :: u8) \<noteq> 0"
      using u by (metis min_less_iff_conj unat_gt_0 zero_less_numeral)
    show ?thesis
      using assms(1) b u z
      by (auto simp: Some haptic_play_sequence_eq [OF b] request_ok_def)
  qed
  show "\<forall>r\<in>set (fifo (snd (haptic_stop s))). request_ok r"
    using assms(1) by (auto simp: haptic_stop_def queue_haptic_data_def request_ok_def)
  show "\<forall>r\<in>set (fifo s). \<forall>d err. initialized d \<longrightarrow>
            (h_type r = HAPTIC_PATTERN_SINGLE_EFFECT
               \<and> fst (drv2605l_play_effect (h_data r ! 0) d) = Inl err
             \<longrightarrow> (\<exists>k. fst (bus d k) = Some err))
          \<and> (h_type r = HAPTIC_PATTERN_SEQUENCE
               \<and> fst (drv2605l_play_sequence (Some (h_data r)) (h_len r) d) = Inl err
             \<longrightarrow> (\<exists>k. fst (bus d k) = Some err))"
  proof (intro ballI allI impI)
    fix r and d :: drv_state and err
    assume r: "r \<in> set (fifo s)" and d: "initialized d"
    have ok: "request_ok r" using assms(1) r by blast
    have single: "\<exists>k. fst (bus d k) = Some err"
      if a: "h_type r = HAPTIC_PATTERN_SINGLE_EFFECT
               \<and> fst (drv2605l_play_effect (h_data r ! 0) d) = Inl err"
    proof -
      have "0 < length (h_data r)" "\<forall>e\<in>set (h_data r). 1 \<le> e \<and> e \<le> 123"
        using a ok by (auto simp: request_ok_def unat_gt_0)
      then have "1 \<le> h_data r ! 0 \<and> h_data r ! 0 \<le> 123"
        using nth_mem by blast
      then show ?thesis
        using a d play_effect_fails_on_bus_only by blast
    qed
    have seq: "\<exists>k. fst (bus d k) = Some err"
      if a: "h_type r = HAPTIC_PATTERN_SEQUENCE
               \<and> fst (drv2605l_play_sequence (Some (h_data r)) (h_len r) d) = Inl err"
    proof -
      have z: "h_len r \<noteq> 0" and l: "min (unat (h_len r)) 8 \<le> length (h_data r)"
        and v: "\<forall>e\<in>set (h_data r). 1 \<le> e \<and> e \<le> 123"
        using a ok by (auto simp: request_ok_def)
      have "\<forall>e\<in>set (take (min (unat (h_len r)) 8) (h_data r)). 1 \<le> e \<and> e \<le> 123"
        using v by (meson in_set_takeD)
      then show ?thesis
        using a d z l play_sequence_fails_on_bus_only by blast
    qed
    show "(h_type r = HAPTIC_PATTERN_SINGLE_EFFECT
               \<and> fst (drv2605l_play_effect (h_data r ! 0) d) = Inl err
             \<longrightarrow> (\<exists>k. fst (bus d k) = Some err))
          \<and> (h_type r = HAPTIC_PATTERN_SEQUENCE
               \<and> fst (drv2605l_play_sequence (Some (h_data r)) (h_len r) d) = Inl err
             \<longrightarrow> (\<exists>k. fst (bus d k) = Some err))"
      using single seq by blast
  qed
qed

text \<open>
  The theorem at a FIFO that holds the sequence \<open>[1, 1, 1]\<close>: the invariant holds of
  it and of the FIFO after each entry point, and playing the request on an initialized
  driver whose bus acknowledges everything succeeds.
\<close>

theorem fifo_requests_valid_witness:
  "list_all request_ok
     (fifo \<lparr>fifo = [\<lparr>h_type = HAPTIC_PATTERN_SEQUENCE, h_data = [1, 1, 1], h_len = 3\<rparr>],
            heap_blocks = 4\<rparr>)
   \<and> list_all request_ok (fifo (snd (haptic_play_effect 14
        \<lparr>fifo = [\<lparr>h_type = HAPTIC_PATTERN_SEQUENCE, h_data = [1, 1, 1], h_len = 3\<rparr>],
         heap_blocks = 4\<rparr>)))
   \<and> list_all request_ok (fifo (snd (haptic_play_pattern 3
        \<lparr>fifo = [\<lparr>h_type = HAPTIC_PATTERN_SEQUENCE, h_data = [1, 1, 1], h_len = 3\<rparr>],
         heap_blocks = 4\<rparr>)))
   \<and> list_all request_ok (fifo (snd (haptic_play_sequence (Some [7, 8]) 2
        \<lparr>fifo = [\<lparr>h_type = HAPTIC_PATTERN_SEQUENCE, h_data = [1, 1, 1], h_len = 3\<rparr>],
         heap_blocks = 4\<rparr>)))
   \<and> list_all request_ok (fifo (snd (haptic_stop
        \<lparr>fifo = [\<lparr>h_type = HAPTIC_PATTERN_SEQUENCE, h_data = [1, 1, 1], h_len = 3\<rparr>],
         heap_blocks = 4\<rparr>)))
   \<and> length (fifo (snd (haptic_play_sequence (Some [7, 8]) 2
        \<lparr>fifo = [\<lparr>h_type = HAPTIC_PATTERN_SEQUENCE, h_data = [1, 1, 1], h_len = 3\<rparr>],
         heap_blocks = 4\<rparr>))) = 2
   \<and> fst (drv2605l_play_sequence (Some [1, 1, 1]) 3
            (initialized_driver DRV2605L_MOTOR_ERM ack_bus)) = Inr ()"
proof -
  let ?r = "\<lparr>h_type = HAPTIC_PATTERN_SEQUENCE, h_data = [1, 1, 1], h_len = 3\<rparr>"
  let ?s = "\<lparr>fifo = [?r], heap_blocks = 4\<rparr>"
  let ?d = "initialized_driver DRV2605L_MOTOR_ERM ack_bus"
  have h1: "\<forall>r\<in>set (fifo ?s). request_ok r"
    by (simp add: request_ok_def)
  have h2: "\<forall>es. Some [7, 8 :: u8] = Some es \<longrightarrow> min (unat (2::u8)) 32 \<le> length es"
    by simp
  note inst = fifo_requests_valid [OF h1 h2, of 14 3]
  have inv: "list_all request_ok (fifo ?s)"
    "list_all request_ok (fifo (snd (haptic_play_effect 14 ?s)))"
    "list_all request_ok (fifo (snd (haptic_play_pattern 3 ?s)))"
    "list_all request_ok (fifo (snd (haptic_play_sequence (Some [7, 8]) 2 ?s)))"
    "list_all request_ok (fifo (snd (haptic_stop ?s)))"
    using h1 inst unfolding list_all_iff by blast+
  have len: "length (fifo (snd (haptic_play_sequence (Some [7, 8]) 2 ?s))) = 2"
    by (simp add: haptic_play_sequence_eq)
  have d: "initialized ?d"
    by (simp add: initialized_driver_def)
  have mem: "?r \<in> set (fifo ?s)" and ty: "h_type ?r = HAPTIC_PATTERN_SEQUENCE"
    by simp_all
  have "\<exists>k. fst (bus ?d k) = Some err"
    if "fst (drv2605l_play_sequence (Some (h_data ?r)) (h_len ?r) ?d) = Inl err" for err
    using inst mem d ty that by blast
  then have "\<forall>err. fst (drv2605l_play_sequence (Some [1, 1, 1]) 3 ?d) \<noteq> Inl err"
    by (auto simp: initialized_driver_def ack_bus_def)
  then have play: "fst (drv2605l_play_sequence (Some [1, 1, 1]) 3 ?d) = Inr ()"
    by (cases "fst (drv2605l_play_sequence (Some [1, 1, 1]) 3 ?d)") auto
  show ?thesis
    using inv len play by blast
qed

end
